theory Spec2Isabelle
  imports Complex_Main "HOL-Library.Sublist"
begin

section \<open>JavaScript values used by the router\<close>

text \<open>
  A text is a JavaScript string, modelled as an Isabelle \<open>string\<close>: a sequence of code
  units below 256 (ASCII and Latin-1), \<open>length\<close> being the source's \<open>.length\<close>.
  \<open>toLowerCase\<close> maps \<open>A-Z\<close> and the Latin-1 capitals to their small letters and keeps
  every other unit. A regular expression with the \<open>i\<close> flag whose letters are ASCII
  matches a unit exactly when the lowered unit is the pattern's (small) letter.
\<close>

definition lower_char :: "char \<Rightarrow> char" where
  "lower_char c =
     (let n = (of_char c :: nat)
      in if (65 \<le> n \<and> n \<le> 90) \<or> (192 \<le> n \<and> n \<le> 222 \<and> n \<noteq> 215)
         then char_of (n + 32) else c)"

definition toLowerCase :: "string \<Rightarrow> string" where
  "toLowerCase s = map lower_char s"

text \<open>The regular expression classes \<open>\d\<close> and \<open>\w\<close>.\<close>

definition is_digit :: "char \<Rightarrow> bool" where
  "is_digit c = (let n = (of_char c :: nat) in 48 \<le> n \<and> n \<le> 57)"

definition is_word_char :: "char \<Rightarrow> bool" where
  "is_word_char c =
     (let n = (of_char c :: nat)
      in (48 \<le> n \<and> n \<le> 57) \<or> (65 \<le> n \<and> n \<le> 90) \<or> n = 95 \<or> (97 \<le> n \<and> n \<le> 122))"

text \<open>\<open>s.includes(k)\<close>: \<open>k\<close> occurs in \<open>s\<close> as a contiguous substring.\<close>

primrec str_includes :: "string \<Rightarrow> string \<Rightarrow> bool" where
  "str_includes [] k = (k = [])"
| "str_includes (c # cs) k = (prefix k (c # cs) \<or> str_includes cs k)"

text \<open>
  \<open>/\bw\b/i.test(s)\<close> for a word \<open>w\<close> of small ASCII letters: \<open>w\<close> occurs, whatever the
  case, with no word character right before it and none right after it. The flag
  \<open>prev\<close> says that the unit before the current position is a word character.
\<close>

definition word_here :: "string \<Rightarrow> string \<Rightarrow> bool" where
  "word_here w s =
     (prefix w (toLowerCase s) \<and>
      (case drop (length w) s of [] \<Rightarrow> True | d # _ \<Rightarrow> \<not> is_word_char d))"

primrec word_from :: "bool \<Rightarrow> string \<Rightarrow> string \<Rightarrow> bool" where
  "word_from prev w [] = False"
| "word_from prev w (c # cs) =
     ((\<not> prev \<and> word_here w (c # cs)) \<or> word_from (is_word_char c) w cs)"

definition test_word :: "string \<Rightarrow> string \<Rightarrow> bool" where
  "test_word w s = word_from False w s"

text \<open>\<open>/\{[\s\S]*\}/.test(s)\<close>: an opening brace with a closing brace somewhere after it.\<close>

definition test_braces :: "string \<Rightarrow> bool" where
  "test_braces s = (CHR ''}'' \<in> set (dropWhile (\<lambda>c. c \<noteq> CHR ''{'') s))"

section \<open>TaskAnalyzer\<close>

definition codeWords :: "string list" where
  "codeWords = [''function'', ''class'', ''import'', ''const'', ''let'', ''var'']"

definition reasoningKeywords :: "string list" where
  "reasoningKeywords =
     [''analyze'', ''explain'', ''compare'', ''evaluate'', ''critique'',
      ''reason'', ''logic'', ''proof'', ''deduce'', ''infer'',
      ''strategy'', ''plan'', ''design'', ''architect'',
      ''debug'', ''optimize'', ''refactor'', ''solve'']"

definition complexKeywords :: "string list" where
  "complexKeywords =
     [''comprehensive'', ''detailed'', ''in-depth'', ''thorough'',
      ''multiple'', ''various'', ''several'', ''complex'']"

definition estimateTokens :: "string \<Rightarrow> nat" where
  "estimateTokens text = (length text + 3) div 4"

text \<open>
  \<open>codePatterns.some(pattern => pattern.test(prompt))\<close>, the patterns in the order of
  the source: the fence, the six keywords, the arrow, the brace block.
\<close>

definition detectCode :: "string \<Rightarrow> bool" where
  "detectCode prompt =
     (str_includes prompt ''```'' \<or>
      (\<exists>w \<in> set codeWords. test_word w prompt) \<or>
      str_includes prompt ''=>'' \<or>
      test_braces prompt)"

text \<open>
  \<open>prompt.split(/\d+\.|step|first|then|next|finally/i).length - 1\<close> is the number of
  matches that \<open>split\<close> finds, scanning from the left and resuming after each match.
  At one position the alternatives are tried in the order written: a maximal run of
  digits followed by a dot, then the five words. \<open>step_match\<close> works on the lowered
  text and gives the length of the match at the start of its argument.
\<close>

definition stepWords :: "string list" where
  "stepWords = [''step'', ''first'', ''then'', ''next'', ''finally'']"

definition digits_dot :: "string \<Rightarrow> nat option" where
  "digits_dot s =
     (let n = length (takeWhile is_digit s)
      in if 0 < n \<and> (case drop n s of [] \<Rightarrow> False | d # _ \<Rightarrow> d = CHR ''.'')
         then Some (Suc n) else None)"

definition step_match :: "string \<Rightarrow> nat option" where
  "step_match s =
     (case digits_dot s of
        Some n \<Rightarrow> Some n
      | None \<Rightarrow> map_option length (find (\<lambda>w. prefix w s) stepWords))"

fun count_from :: "nat \<Rightarrow> string \<Rightarrow> nat" where
  "count_from k [] = 0"
| "count_from (Suc k) (c # cs) = count_from k cs"
| "count_from 0 (c # cs) =
     (case step_match (c # cs) of
        Some n \<Rightarrow> Suc (count_from (n - 1) cs)
      | None \<Rightarrow> count_from 0 cs)"

definition countSteps :: "string \<Rightarrow> nat" where
  "countSteps prompt = count_from 0 (toLowerCase prompt)"

definition assessReasoning :: "string \<Rightarrow> nat" where
  "assessReasoning prompt =
     (let lowerPrompt = toLowerCase prompt;
          score = length (filter (str_includes lowerPrompt) reasoningKeywords);
          steps = countSteps prompt
      in min 10 (score + steps))"

definition countQuestions :: "string \<Rightarrow> nat" where
  "countQuestions text = length (filter (\<lambda>c. c = CHR ''?'') text)"

text \<open>\<open>text.match(/[.!?]+/g)\<close>: the maximal runs of sentence terminators.\<close>

definition is_terminator :: "char \<Rightarrow> bool" where
  "is_terminator c = (c = CHR ''.'' \<or> c = CHR ''!'' \<or> c = CHR ''?'')"

primrec runs_from :: "bool \<Rightarrow> string \<Rightarrow> nat" where
  "runs_from inrun [] = 0"
| "runs_from inrun (c # cs) =
     (if is_terminator c then (if inrun then 0 else 1) + runs_from True cs
      else runs_from False cs)"

definition countSentences :: "string \<Rightarrow> nat" where
  "countSentences text = runs_from False text"

definition calculateComplexity :: "string \<Rightarrow> nat" where
  "calculateComplexity prompt =
     (let s1 = (if length prompt > 500 then 20 else 0);
          s2 = s1 + (if length prompt > 1000 then 20 else 0);
          s3 = s2 + (if detectCode prompt then 25 else 0);
          s4 = s3 + assessReasoning prompt * 3;
          lowerPrompt = toLowerCase prompt;
          s5 = s4 + 5 * length (filter (str_includes lowerPrompt) complexKeywords);
          questions = countQuestions prompt;
          s6 = s5 + (if questions > 1 then questions * 5 else 0)
      in min 100 s6)"

record Metrics =
  tokens :: nat
  hasCode :: bool
  reasoningLevel :: nat
  complexityScore :: nat
  text_length :: nat
  sentences :: nat
  questions :: nat

definition calculateMetrics :: "string \<Rightarrow> Metrics" where
  "calculateMetrics prompt =
     \<lparr> tokens = estimateTokens prompt,
       hasCode = detectCode prompt,
       reasoningLevel = assessReasoning prompt,
       complexityScore = calculateComplexity prompt,
       text_length = length prompt,
       sentences = countSentences prompt,
       questions = countQuestions prompt \<rparr>"

text \<open>The tier names are the strings of the source.\<close>

definition determineTier :: "Metrics \<Rightarrow> string" where
  "determineTier m =
     (if complexityScore m \<ge> 60 then ''COMPLEX''
      else if hasCode m \<and> reasoningLevel m \<ge> 5 then ''COMPLEX''
      else if tokens m > 500 then ''COMPLEX''
      else if complexityScore m \<ge> 30 then ''MEDIUM''
      else if hasCode m then ''MEDIUM''
      else if reasoningLevel m \<ge> 3 then ''MEDIUM''
      else if tokens m > 200 then ''MEDIUM''
      else ''SIMPLE'')"

definition calculateConfidence :: "Metrics \<Rightarrow> string \<Rightarrow> rat" where
  "calculateConfidence m tier =
     (if tier = ''COMPLEX'' \<and> complexityScore m \<ge> 70 then 95 / 100
      else if tier = ''COMPLEX'' \<and> complexityScore m \<ge> 60 then 85 / 100
      else if tier = ''MEDIUM'' \<and> complexityScore m \<ge> 30 \<and> complexityScore m < 60 then 90 / 100
      else if tier = ''SIMPLE'' \<and> complexityScore m < 25 then 92 / 100
      else 75 / 100)"

text \<open>A number inside a template string: its decimal digits.\<close>

fun show_nat :: "nat \<Rightarrow> string" where
  "show_nat n =
     (if n < 10 then [char_of (48 + n)]
      else show_nat (n div 10) @ [char_of (48 + n mod 10)])"

declare show_nat.simps [simp del]

primrec join :: "string \<Rightarrow> string list \<Rightarrow> string" where
  "join sep [] = []"
| "join sep (x # xs) = x @ concat (map (\<lambda>y. sep @ y) xs)"

definition explainDecision :: "Metrics \<Rightarrow> string \<Rightarrow> string" where
  "explainDecision m tier =
     (let r1 = (if complexityScore m \<ge> 60
                then [''High complexity score ('' @ show_nat (complexityScore m) @ '')''] else []);
          r2 = r1 @ (if hasCode m then [''Contains code''] else []);
          r3 = r2 @ (if reasoningLevel m \<ge> 5
                then [''High reasoning requirement ('' @ show_nat (reasoningLevel m) @ ''/10)''] else []);
          r4 = r3 @ (if tokens m > 500
                then [''Large token count (~'' @ show_nat (tokens m) @ '')''] else []);
          reasons = (if length r4 = 0 then [''Simple query with basic requirements''] else r4)
      in join '', '' reasons)"

record Analysis =
  tier :: string
  metrics :: Metrics
  confidence :: rat
  reasoning :: string

definition analyze :: "string \<Rightarrow> Analysis" where
  "analyze prompt =
     (let m = calculateMetrics prompt; t = determineTier m
      in \<lparr> tier = t, metrics = m,
           confidence = calculateConfidence m t,
           reasoning = explainDecision m t \<rparr>)"

text \<open>
  The decision of the specification, written as it is worded: a list of rules tried
  in order, the first rule whose condition holds giving the tier, \<open>SIMPLE\<close> when none does.
\<close>

definition tier_rules :: "((Metrics \<Rightarrow> bool) \<times> string) list" where
  "tier_rules =
     [(\<lambda>m. complexityScore m \<ge> 60, ''COMPLEX''),
      (\<lambda>m. hasCode m \<and> reasoningLevel m \<ge> 5, ''COMPLEX''),
      (\<lambda>m. tokens m > 500, ''COMPLEX''),
      (\<lambda>m. complexityScore m \<ge> 30, ''MEDIUM''),
      (\<lambda>m. hasCode m, ''MEDIUM''),
      (\<lambda>m. reasoningLevel m \<ge> 3, ''MEDIUM''),
      (\<lambda>m. tokens m > 200, ''MEDIUM'')]"

definition first_match :: "((Metrics \<Rightarrow> bool) \<times> string) list \<Rightarrow> Metrics \<Rightarrow> string" where
  "first_match rules m =
     (case find (\<lambda>r. fst r m) rules of Some r \<Rightarrow> snd r | None \<Rightarrow> ''SIMPLE'')"

section \<open>Numbers\<close>

text \<open>
  A JavaScript number is modelled by its value: a rational when it is finite, or one of
  \<open>Infinity\<close>, \<open>-Infinity\<close> and \<open>NaN\<close>. The operations follow IEEE 754 on the special
  values; on finite values they are exact (rounding, overflow and the sign of zero are
  outside the model). In HOL \<open>x / 0 = 0\<close>, so the division of the source is written out.
\<close>

datatype jsnum = Fin rat | PosInf | NegInf | NaN

fun js_add :: "jsnum \<Rightarrow> jsnum \<Rightarrow> jsnum" where
  "js_add NaN _ = NaN"
| "js_add _ NaN = NaN"
| "js_add (Fin a) (Fin b) = Fin (a + b)"
| "js_add PosInf NegInf = NaN"
| "js_add NegInf PosInf = NaN"
| "js_add PosInf _ = PosInf"
| "js_add _ PosInf = PosInf"
| "js_add NegInf _ = NegInf"
| "js_add _ NegInf = NegInf"

fun js_neg :: "jsnum \<Rightarrow> jsnum" where
  "js_neg (Fin a) = Fin (- a)"
| "js_neg PosInf = NegInf"
| "js_neg NegInf = PosInf"
| "js_neg NaN = NaN"

definition js_sub :: "jsnum \<Rightarrow> jsnum \<Rightarrow> jsnum" where
  "js_sub a b = js_add a (js_neg b)"

text \<open>The sign of an infinite product or quotient: \<open>Infinity\<close> when \<open>pos\<close>, else \<open>-Infinity\<close>.\<close>

definition signed_inf :: "bool \<Rightarrow> jsnum" where
  "signed_inf pos = (if pos then PosInf else NegInf)"

fun js_mul :: "jsnum \<Rightarrow> jsnum \<Rightarrow> jsnum" where
  "js_mul NaN _ = NaN"
| "js_mul _ NaN = NaN"
| "js_mul (Fin a) (Fin b) = Fin (a * b)"
| "js_mul (Fin a) PosInf = (if a = 0 then NaN else signed_inf (0 < a))"
| "js_mul (Fin a) NegInf = (if a = 0 then NaN else signed_inf (a < 0))"
| "js_mul PosInf (Fin b) = (if b = 0 then NaN else signed_inf (0 < b))"
| "js_mul NegInf (Fin b) = (if b = 0 then NaN else signed_inf (b < 0))"
| "js_mul PosInf PosInf = PosInf"
| "js_mul NegInf NegInf = PosInf"
| "js_mul PosInf NegInf = NegInf"
| "js_mul NegInf PosInf = NegInf"

fun js_div :: "jsnum \<Rightarrow> jsnum \<Rightarrow> jsnum" where
  "js_div NaN _ = NaN"
| "js_div _ NaN = NaN"
| "js_div (Fin a) (Fin b) =
     (if b \<noteq> 0 then Fin (a / b)
      else if 0 < a then PosInf else if a < 0 then NegInf else NaN)"
| "js_div (Fin a) PosInf = Fin 0"
| "js_div (Fin a) NegInf = Fin 0"
| "js_div PosInf (Fin b) = signed_inf (0 \<le> b)"
| "js_div NegInf (Fin b) = signed_inf (b < 0)"
| "js_div PosInf _ = NaN"
| "js_div NegInf _ = NaN"

fun js_gt :: "jsnum \<Rightarrow> jsnum \<Rightarrow> bool" where
  "js_gt NaN _ = False"
| "js_gt _ NaN = False"
| "js_gt (Fin a) (Fin b) = (b < a)"
| "js_gt PosInf PosInf = False"
| "js_gt PosInf _ = True"
| "js_gt NegInf _ = False"
| "js_gt (Fin a) PosInf = False"
| "js_gt (Fin a) NegInf = True"

definition js_of_nat :: "nat \<Rightarrow> jsnum" where
  "js_of_nat n = Fin (of_nat n)"

section \<open>CostTracker\<close>

text \<open>
  The value of the variable \<open>tier\<close> of \<open>route\<close>: a string, or (after a fallback through a
  name that the fallback table only inherits, see below) the member of
  \<open>Object.prototype\<close> of that name.
\<close>

datatype tier_val = TName string | TProto string

text \<open>
  One logged request. The fields are those of the objects that \<open>route\<close> logs, and the
  \<open>id\<close> that \<open>logRequest\<close> adds; \<open>timestamp\<close> and \<open>duration\<close> read the clock and are left
  out. \<open>rec_model\<close> and \<open>rec_error\<close> are \<open>None\<close> where the source has \<open>undefined\<close>.
\<close>

record UsageRecord =
  rec_id :: nat
  rec_prompt :: string
  rec_tier :: tier_val
  rec_model :: "string option"
  rec_inputTokens :: nat
  rec_outputTokens :: nat
  rec_cost :: jsnum
  rec_success :: bool
  rec_error :: "string option"
  rec_attempts :: nat

record CostTracker =
  requests :: "UsageRecord list"

definition baseline_costPerMInput :: jsnum where
  "baseline_costPerMInput = Fin 90"

definition baseline_costPerMOutput :: jsnum where
  "baseline_costPerMOutput = Fin 90"

definition CostTracker_new :: CostTracker where
  "CostTracker_new = \<lparr> requests = [] \<rparr>"

text \<open>\<open>this.requests.push({...request, id: this.requests.length + 1})\<close>\<close>

definition logRequest :: "CostTracker \<Rightarrow> UsageRecord \<Rightarrow> CostTracker" where
  "logRequest tr request =
     tr \<lparr> requests := requests tr @ [request \<lparr> rec_id := length (requests tr) + 1 \<rparr>] \<rparr>"

definition clear :: "CostTracker \<Rightarrow> CostTracker" where
  "clear tr = tr \<lparr> requests := [] \<rparr>"

text \<open>
  \<open>xs.slice(start)\<close> for an integer \<open>start\<close>: a negative start counts from the end and
  stops at the first element; a start of zero or more counts from the front.
\<close>

definition slice_from :: "'a list \<Rightarrow> int \<Rightarrow> 'a list" where
  "slice_from xs start =
     (let len = int (length xs);
          k = (if start < 0 then max (len + start) 0 else min start len)
      in drop (nat k) xs)"

text \<open>\<open>getRecentRequests(limit = 10)\<close>: \<open>None\<close> is a call without the argument.\<close>

definition getRecentRequests :: "CostTracker \<Rightarrow> int option \<Rightarrow> UsageRecord list" where
  "getRecentRequests tr limit_arg =
     (let limit = (case limit_arg of None \<Rightarrow> 10 | Some n \<Rightarrow> n)
      in slice_from (requests tr) (- limit))"

record TierStats =
  ts_requests :: nat
  ts_cost :: jsnum
  ts_inputTokens :: nat
  ts_outputTokens :: nat

text \<open>
  The object that \<open>calculateStats\<close> returns. The fields that its early return leaves
  out are options, \<open>None\<close> there.
\<close>

record Stats =
  totalRequests :: nat
  successfulRequests :: nat
  failedRequests :: "nat option"
  totalCost :: jsnum
  baselineCost :: jsnum
  savings :: jsnum
  savingsPercent :: jsnum
  savingsMultiplier :: "jsnum option"
  avgCostPerRequest :: jsnum
  totalInputTokens :: "nat option"
  totalOutputTokens :: "nat option"
  costByTier :: "(string \<times> TierStats) list"
  requestsByTier :: "(string \<times> nat) list option"

definition sum_cost :: "UsageRecord list \<Rightarrow> jsnum" where
  "sum_cost rs = foldl (\<lambda>sum r. js_add sum (rec_cost r)) (Fin 0) rs"

definition sum_input :: "UsageRecord list \<Rightarrow> nat" where
  "sum_input rs = foldl (\<lambda>sum r. sum + rec_inputTokens r) 0 rs"

definition sum_output :: "UsageRecord list \<Rightarrow> nat" where
  "sum_output rs = foldl (\<lambda>sum r. sum + rec_outputTokens r) 0 rs"

definition tier_breakdown :: "UsageRecord list \<Rightarrow> string \<Rightarrow> TierStats" where
  "tier_breakdown successful t =
     (let tierRequests = filter (\<lambda>r. rec_tier r = TName t) successful
      in \<lparr> ts_requests = length tierRequests,
           ts_cost = sum_cost tierRequests,
           ts_inputTokens = sum_input tierRequests,
           ts_outputTokens = sum_output tierRequests \<rparr>)"

definition calculateStats :: "CostTracker \<Rightarrow> Stats" where
  "calculateStats tr =
     (let successful = filter rec_success (requests tr)
      in if length successful = 0 then
           \<lparr> totalRequests = 0, successfulRequests = 0, failedRequests = None,
             totalCost = Fin 0, baselineCost = Fin 0, savings = Fin 0,
             savingsPercent = Fin 0, savingsMultiplier = None,
             avgCostPerRequest = Fin 0,
             totalInputTokens = None, totalOutputTokens = None,
             costByTier = [], requestsByTier = None \<rparr>
         else
           (let total = sum_cost successful;
                totalIn = sum_input successful;
                totalOut = sum_output successful;
                baseline =
                  js_add (js_mul (js_div (js_of_nat totalIn) (Fin 1000000)) baseline_costPerMInput)
                         (js_mul (js_div (js_of_nat totalOut) (Fin 1000000)) baseline_costPerMOutput);
                sav = js_sub baseline total;
                savPercent =
                  (if js_gt baseline (Fin 0) then js_mul (js_div sav baseline) (Fin 100) else Fin 0);
                tiers = [''SIMPLE'', ''MEDIUM'', ''COMPLEX'']
            in \<lparr> totalRequests = length (requests tr),
                 successfulRequests = length successful,
                 failedRequests = Some (length (requests tr) - length successful),
                 totalCost = total,
                 baselineCost = baseline,
                 savings = sav,
                 savingsPercent = savPercent,
                 savingsMultiplier =
                   Some (if js_gt baseline (Fin 0) then js_div baseline total else Fin 0),
                 avgCostPerRequest = js_div total (js_of_nat (length successful)),
                 totalInputTokens = Some totalIn,
                 totalOutputTokens = Some totalOut,
                 costByTier = map (\<lambda>t. (t, tier_breakdown successful t)) tiers,
                 requestsByTier =
                   Some (map (\<lambda>t. (t, ts_requests (tier_breakdown successful t))) tiers) \<rparr>))"

text \<open>
  The ledger states that the operations of the tracker produce from a new tracker:
  \<open>logRequest\<close> (also called by \<open>route\<close>, once per attempt) and \<open>clear\<close>.
\<close>

datatype ledger_op = Log UsageRecord | Clear

fun apply_op :: "CostTracker \<Rightarrow> ledger_op \<Rightarrow> CostTracker" where
  "apply_op tr (Log r) = logRequest tr r"
| "apply_op tr Clear = clear tr"

definition run_ops :: "ledger_op list \<Rightarrow> CostTracker" where
  "run_ops ops = foldl apply_op CostTracker_new ops"

text \<open>Two records for the examples below: a failed attempt and a successful one.\<close>

definition failed_attempt :: UsageRecord where
  "failed_attempt =
     \<lparr> rec_id = 0, rec_prompt = ''hi...'', rec_tier = TName ''SIMPLE'',
       rec_model = Some ''minimax/minimax-01'', rec_inputTokens = 0, rec_outputTokens = 0,
       rec_cost = Fin 0, rec_success = False, rec_error = Some ''unavailable'',
       rec_attempts = 1 \<rparr>"

definition free_success :: UsageRecord where
  "free_success =
     \<lparr> rec_id = 0, rec_prompt = ''hi...'', rec_tier = TName ''SIMPLE'',
       rec_model = Some ''minimax/minimax-01'', rec_inputTokens = 1000000, rec_outputTokens = 0,
       rec_cost = Fin 0, rec_success = True, rec_error = None,
       rec_attempts = 1 \<rparr>"

section \<open>ModelRouter\<close>

record ModelConfig =
  name :: string
  displayName :: string
  costPerMInput :: jsnum
  costPerMOutput :: jsnum
  maxRetries :: nat

text \<open>
  \<open>this.models\<close> and \<open>this.fallbackChain\<close> are object literals. Their own properties are
  a finite map from names to values; \<open>obj[key]\<close> finds an own property, else a member
  that the object inherits from \<open>Object.prototype\<close>, else \<open>undefined\<close>.
\<close>

definition default_models :: "string \<rightharpoonup> ModelConfig" where
  "default_models = map_of
     [(''SIMPLE'', \<lparr> name = ''minimax/minimax-01'', displayName = ''Minimax M2.5'',
          costPerMInput = Fin (127 / 100), costPerMOutput = Fin (127 / 100), maxRetries = 2 \<rparr>),
      (''MEDIUM'', \<lparr> name = ''anthropic/claude-3-5-haiku-20241022'',
          displayName = ''Claude 3.5 Haiku'',
          costPerMInput = Fin (80 / 100), costPerMOutput = Fin 4, maxRetries = 2 \<rparr>),
      (''COMPLEX'', \<lparr> name = ''anthropic/claude-opus-4-20250514'',
          displayName = ''Claude Opus 4.6'',
          costPerMInput = Fin 90, costPerMOutput = Fin 90, maxRetries = 1 \<rparr>)]"

text \<open>The values of the fallback table are a tier name or \<open>null\<close> (\<open>None\<close>).\<close>

definition fallbackChain :: "string \<rightharpoonup> string option" where
  "fallbackChain = map_of
     [(''SIMPLE'', Some ''MEDIUM''), (''MEDIUM'', Some ''COMPLEX''), (''COMPLEX'', None)]"

definition Object_prototype_keys :: "string list" where
  "Object_prototype_keys =
     [''constructor'', ''__defineGetter__'', ''__defineSetter__'', ''hasOwnProperty'',
      ''__lookupGetter__'', ''__lookupSetter__'', ''isPrototypeOf'',
      ''propertyIsEnumerable'', ''toString'', ''valueOf'', ''__proto__'',
      ''toLocaleString'']"

datatype 'a lookup = Own 'a | Inherited string | Undefined

definition js_get :: "(string \<rightharpoonup> 'a) \<Rightarrow> string \<Rightarrow> 'a lookup" where
  "js_get obj k =
     (case obj k of
        Some v \<Rightarrow> Own v
      | None \<Rightarrow> if k \<in> set Object_prototype_keys then Inherited k else Undefined)"

text \<open>
  The inherited members are functions, but for \<open>__proto__\<close>, which is the object
  \<open>Object.prototype\<close>. A function has a \<open>name\<close>: \<open>Object\<close> for \<open>constructor\<close>, its key
  for the others; no member has a \<open>displayName\<close> or a cost. Used as a property key, a
  member is converted to a string as Node prints it.
\<close>

definition proto_member_name :: "string \<Rightarrow> string option" where
  "proto_member_name k =
     (if k = ''__proto__'' then None
      else if k = ''constructor'' then Some ''Object'' else Some k)"

definition proto_member_string :: "string \<Rightarrow> string" where
  "proto_member_string k =
     (case proto_member_name k of
        None \<Rightarrow> ''[object Object]''
      | Some n \<Rightarrow> ''function '' @ n @ ''() { [native code] }'')"

fun tier_key :: "tier_val \<Rightarrow> string" where
  "tier_key (TName s) = s"
| "tier_key (TProto k) = proto_member_string k"

text \<open>Truthiness: a string unless empty, every object; not \<open>null\<close>, not \<open>undefined\<close>.\<close>

fun tier_truthy :: "tier_val \<Rightarrow> bool" where
  "tier_truthy (TName s) = (s \<noteq> [])"
| "tier_truthy (TProto k) = True"

text \<open>\<open>this.fallbackChain[tier]\<close>, when it is truthy, as the next value of \<open>tier\<close>.\<close>

fun next_tier :: "string option lookup \<Rightarrow> tier_val option" where
  "next_tier (Own (Some s)) = (if s \<noteq> [] then Some (TName s) else None)"
| "next_tier (Own None) = None"
| "next_tier (Inherited k) = Some (TProto k)"
| "next_tier Undefined = None"

text \<open>\<open>model.name\<close> and \<open>model.displayName\<close> where \<open>model\<close> is not \<open>undefined\<close>.\<close>

fun model_name :: "ModelConfig lookup \<Rightarrow> string option" where
  "model_name (Own cfg) = Some (name cfg)"
| "model_name (Inherited k) = proto_member_name k"
| "model_name Undefined = None"

fun model_displayName :: "ModelConfig lookup \<Rightarrow> string option" where
  "model_displayName (Own cfg) = Some (displayName cfg)"
| "model_displayName (Inherited k) = None"
| "model_displayName Undefined = None"

text \<open>A value inside a template string: \<open>undefined\<close> prints as the word.\<close>

definition show_opt :: "string option \<Rightarrow> string" where
  "show_opt v = (case v of None \<Rightarrow> ''undefined'' | Some s \<Rightarrow> s)"

datatype js_error = TypeError string | Error string

definition cannot_read :: "string \<Rightarrow> string" where
  "cannot_read field =
     ''Cannot read properties of undefined (reading '' @ [CHR 0x27] @ field @ [CHR 0x27] @ '')''"

record Usage =
  u_input :: nat
  u_output :: nat
  u_total :: nat

text \<open>
  What one call of \<open>executeModel\<close> does: it returns a response, or it throws an error
  with a message.
\<close>

datatype backend_result = Response string Usage | Failure string

text \<open>
  \<open>executeModel\<close> with an \<open>apiClient\<close> (its \<open>complete\<close>, which gets the model name and the
  prompt, the number of the attempt standing for whatever else decides its answer) or
  without one, where the demonstration backend draws a random number: \<open>random n\<close> is
  the draw at attempt \<open>n\<close>. The simulated latency is left out.
\<close>

definition executeModel ::
  "(string \<rightharpoonup> ModelConfig) \<Rightarrow> (string option \<Rightarrow> string \<Rightarrow> nat \<Rightarrow> backend_result) option \<Rightarrow>
   (nat \<Rightarrow> rat) \<Rightarrow> tier_val \<Rightarrow> string \<Rightarrow> nat \<Rightarrow> backend_result" where
  "executeModel ms apiClient random t prompt n =
     (let model = js_get ms (tier_key t)
      in case apiClient of
           Some client \<Rightarrow>
             (if model = Undefined then Failure (cannot_read ''name'')
              else client (model_name model) prompt n)
         | None \<Rightarrow>
             (let inputTokens = (length prompt + 3) div 4;
                  outputTokens = inputTokens div 2;
                  failureRate = (if t = TName ''SIMPLE'' then 15 / 100
                                 else if t = TName ''MEDIUM'' then 5 / 100 else 1 / 100)
              in if model = Undefined then Failure (cannot_read ''displayName'')
                 else if random n < failureRate
                 then Failure (show_opt (model_displayName model) @ '' temporarily unavailable'')
                 else Response
                        (''[Mock response from '' @ show_opt (model_displayName model) @ '']''
                           @ [CHR 0x0A, CHR 0x0A] @ ''This is a simulated response to: ''
                           @ [CHR 0x22] @ take 50 prompt @ ''...'' @ [CHR 0x22])
                        \<lparr> u_input = inputTokens, u_output = outputTokens,
                          u_total = inputTokens + outputTokens \<rparr>))"

text \<open>\<open>calculateCost\<close>: a cost that is \<open>undefined\<close> makes the product \<open>NaN\<close>.\<close>

definition calculateCost :: "(string \<rightharpoonup> ModelConfig) \<Rightarrow> tier_val \<Rightarrow> Usage \<Rightarrow> js_error + jsnum" where
  "calculateCost ms t usage =
     (case js_get ms (tier_key t) of
        Undefined \<Rightarrow> Inl (TypeError (cannot_read ''costPerMInput''))
      | Inherited k \<Rightarrow> Inr NaN
      | Own cfg \<Rightarrow>
          (let inputCost = js_mul (js_div (js_of_nat (u_input usage)) (Fin 1000000)) (costPerMInput cfg);
               outputCost = js_mul (js_div (js_of_nat (u_output usage)) (Fin 1000000)) (costPerMOutput cfg)
           in Inr (js_add inputCost outputCost)))"

definition getModelInfo :: "(string \<rightharpoonup> ModelConfig) \<Rightarrow> string \<Rightarrow> js_error + ModelConfig lookup" where
  "getModelInfo ms t = Inr (js_get ms t)"

text \<open>The result of a successful \<open>route\<close> (\<open>duration\<close> reads the clock and is left out).\<close>

record DispatchResult =
  res_tier :: tier_val
  res_model :: "string option"
  res_displayName :: "string option"
  res_response :: string
  res_usage :: Usage
  res_cost :: jsnum
  res_analysis :: Analysis
  res_attempts :: nat

text \<open>
  A run of \<open>route\<close>: what it returns or throws, the tracker after it, and the tiers on
  which it called \<open>executeModel\<close>, in the order of the calls.
\<close>

record RouteRun =
  outcome :: "js_error + DispatchResult"
  tracker :: CostTracker
  calls :: "tier_val list"

definition success_record :: "string \<Rightarrow> tier_val \<Rightarrow> ModelConfig lookup \<Rightarrow> Usage \<Rightarrow> jsnum \<Rightarrow> nat \<Rightarrow> UsageRecord" where
  "success_record prompt t model usage cost attempts =
     \<lparr> rec_id = 0, rec_prompt = take 100 prompt @ ''...'', rec_tier = t,
       rec_model = model_name model, rec_inputTokens = u_input usage,
       rec_outputTokens = u_output usage, rec_cost = cost, rec_success = True,
       rec_error = None, rec_attempts = attempts \<rparr>"

definition failure_record :: "string \<Rightarrow> tier_val \<Rightarrow> ModelConfig lookup \<Rightarrow> string \<Rightarrow> nat \<Rightarrow> UsageRecord" where
  "failure_record prompt t model message attempts =
     \<lparr> rec_id = 0, rec_prompt = take 100 prompt @ ''...'', rec_tier = t,
       rec_model = model_name model, rec_inputTokens = 0, rec_outputTokens = 0,
       rec_cost = Fin 0, rec_success = False, rec_error = Some message,
       rec_attempts = attempts \<rparr>"

text \<open>
  The body of the \<open>try\<close> of one turn of the loop: \<open>Inl\<close> is the message of the error
  thrown in it, \<open>Inr\<close> the result returned with the tracker after the success was logged.
  Reading \<open>model.displayName\<close> of an \<open>undefined\<close> model throws before \<open>executeModel\<close> is
  called.
\<close>

definition try_attempt ::
  "(string \<rightharpoonup> ModelConfig) \<Rightarrow> (tier_val \<Rightarrow> string \<Rightarrow> nat \<Rightarrow> backend_result) \<Rightarrow> string \<Rightarrow>
   Analysis \<Rightarrow> tier_val \<Rightarrow> nat \<Rightarrow> CostTracker \<Rightarrow> string + (DispatchResult \<times> CostTracker)" where
  "try_attempt ms exec prompt analysis t attempts tr =
     (let model = js_get ms (tier_key t)
      in if model = Undefined then Inl (cannot_read ''displayName'')
         else case exec t prompt attempts of
           Failure message \<Rightarrow> Inl message
         | Response content usage \<Rightarrow>
             (case calculateCost ms t usage of
                Inl (TypeError message) \<Rightarrow> Inl message
              | Inl (Error message) \<Rightarrow> Inl message
              | Inr cost \<Rightarrow>
                  Inr (\<lparr> res_tier = t, res_model = model_name model,
                         res_displayName = model_displayName model,
                         res_response = content, res_usage = usage, res_cost = cost,
                         res_analysis = analysis, res_attempts = attempts \<rparr>,
                       logRequest tr (success_record prompt t model usage cost attempts))))"

definition all_failed :: "string option \<Rightarrow> js_error" where
  "all_failed lastError = Error (''All models failed. Last error: '' @ show_opt lastError)"

text \<open>
  The loop of \<open>route\<close>, entered with the current \<open>tier\<close>, the attempts made so far, the
  message of the last error, the tracker and the calls made so far. In the \<open>catch\<close>,
  reading \<open>model.displayName\<close> of an \<open>undefined\<close> model throws again, out of \<open>route\<close>,
  before anything is logged.
\<close>

function route_loop ::
  "(string \<rightharpoonup> ModelConfig) \<Rightarrow> (tier_val \<Rightarrow> string \<Rightarrow> nat \<Rightarrow> backend_result) \<Rightarrow> string \<Rightarrow>
   Analysis \<Rightarrow> tier_val \<Rightarrow> nat \<Rightarrow> string option \<Rightarrow> CostTracker \<Rightarrow> tier_val list \<Rightarrow> RouteRun" where
  "route_loop ms exec prompt analysis t attempts0 lastError tr cs =
     (if \<not> tier_truthy t
      then \<lparr> outcome = Inl (all_failed lastError), tracker = tr, calls = cs \<rparr>
      else
        (let attempts = attempts0 + 1;
             model = js_get ms (tier_key t);
             cs' = (if model = Undefined then cs else cs @ [t])
         in case try_attempt ms exec prompt analysis t attempts tr of
              Inr (result, tr') \<Rightarrow> \<lparr> outcome = Inr result, tracker = tr', calls = cs' \<rparr>
            | Inl message \<Rightarrow>
                if model = Undefined
                then \<lparr> outcome = Inl (TypeError (cannot_read ''displayName'')),
                       tracker = tr, calls = cs' \<rparr>
                else
                  (let tr' = logRequest tr (failure_record prompt t model message attempts);
                       nextTier = next_tier (js_get fallbackChain (tier_key t))
                   in if nextTier \<noteq> None \<and> attempts < 3
                      then route_loop ms exec prompt analysis (the nextTier) attempts
                             (Some message) tr' cs'
                      else \<lparr> outcome = Inl (all_failed (Some message)),
                             tracker = tr', calls = cs' \<rparr>)))"
  by pat_completeness auto
termination
  by (relation "measure (\<lambda>(ms, exec, prompt, analysis, t, attempts0, lastError, tr, cs). 3 - attempts0)")
    auto

declare route_loop.simps [simp del]

definition route ::
  "(string \<rightharpoonup> ModelConfig) \<Rightarrow> (tier_val \<Rightarrow> string \<Rightarrow> nat \<Rightarrow> backend_result) \<Rightarrow> CostTracker \<Rightarrow>
   string \<Rightarrow> string option \<Rightarrow> RouteRun" where
  "route ms exec tr prompt forceTier =
     (let analysis = analyze prompt;
          t = (case forceTier of
                 None \<Rightarrow> tier analysis
               | Some f \<Rightarrow> if f \<noteq> [] then f else tier analysis)
      in route_loop ms exec prompt analysis (TName t) 0 None tr [])"

text \<open>
  The escalation order of the specification, as it is worded: the three tiers, each
  followed by the next one, the last by none; and the tiers from a given one upwards.
\<close>

definition known_tiers :: "string list" where
  "known_tiers = [''SIMPLE'', ''MEDIUM'', ''COMPLEX'']"

definition escalation :: "string \<Rightarrow> string option" where
  "escalation t =
     (if t = ''SIMPLE'' then Some ''MEDIUM''
      else if t = ''MEDIUM'' then Some ''COMPLEX'' else None)"

definition chain_from :: "string \<Rightarrow> string list" where
  "chain_from t = dropWhile (\<lambda>x. x \<noteq> t) known_tiers"

text \<open>
  Two demonstration backends for the examples below: one whose first attempt fails and
  whose later attempts succeed, and one that always succeeds.
\<close>

definition flaky_backend :: "tier_val \<Rightarrow> string \<Rightarrow> nat \<Rightarrow> backend_result" where
  "flaky_backend = executeModel default_models None (\<lambda>n. if n = 1 then 0 else 1 / 2)"

definition steady_backend :: "tier_val \<Rightarrow> string \<Rightarrow> nat \<Rightarrow> backend_result" where
  "steady_backend = executeModel default_models None (\<lambda>n. 1 / 2)"

text \<open>
  The part of the score that comes from the reasoning level, the complex keywords and
  the question marks.
\<close>

definition score_rest :: "string \<Rightarrow> nat" where
  "score_rest s = assessReasoning s * 3
     + 5 * length (filter (str_includes (toLowerCase s)) complexKeywords)
     + (if countQuestions s > 1 then countQuestions s * 5 else 0)"

text \<open>
  Two texts for the examples below: 498 spaces and the word \<open>let\<close>, and the 1000
  characters \<open>ter\<close> and 997 spaces, which make the word \<open>letter\<close> of it.
\<close>

definition trailing_let :: string where
  "trailing_let = replicate 498 (CHR '' '') @ ''let''"

definition letter_tail :: string where
  "letter_tail = ''ter'' @ replicate 997 (CHR '' '')"

text \<open>
  A backend whose every attempt fails, and the tier table after
  \<open>setModel('SIMPLE', {costPerMInput: 0, costPerMOutput: 0})\<close>.
\<close>

definition failing_backend :: "tier_val \<Rightarrow> string \<Rightarrow> nat \<Rightarrow> backend_result" where
  "failing_backend = executeModel default_models None (\<lambda>n. 0)"

definition free_models :: "string \<rightharpoonup> ModelConfig" where
  "free_models = default_models
     (''SIMPLE'' \<mapsto> \<lparr> name = ''minimax/minimax-01'', displayName = ''Minimax M2.5'',
          costPerMInput = Fin 0, costPerMOutput = Fin 0, maxRetries = 2 \<rparr>)"

text \<open>
  What holds of attempt number \<open>n + i + 1\<close> of a run, at position \<open>i\<close> of the tiers
  \<open>new\<close> attempted from there and of the records \<open>recs\<close> logged from there (\<open>base\<close>
  records are in the ledger before them), \<open>out\<close> being what the run returns or throws.
  It is used to carry the statement about \<open>route\<close> through the turns of the loop.
\<close>

definition attempt_ok ::
  "(string \<rightharpoonup> ModelConfig) \<Rightarrow> (tier_val \<Rightarrow> string \<Rightarrow> nat \<Rightarrow> backend_result) \<Rightarrow> string \<Rightarrow>
   nat \<Rightarrow> nat \<Rightarrow> string list \<Rightarrow> UsageRecord list \<Rightarrow> js_error + DispatchResult \<Rightarrow> nat \<Rightarrow> bool" where
  "attempt_ok ms exec prompt n base new recs out i =
     ((\<forall>m. exec (TName (new ! i)) prompt (Suc (n + i)) = Failure m \<longrightarrow>
           recs ! i =
             \<lparr> rec_id = Suc (base + i), rec_prompt = take 100 prompt @ ''...'',
               rec_tier = TName (new ! i), rec_model = map_option name (ms (new ! i)),
               rec_inputTokens = 0, rec_outputTokens = 0, rec_cost = Fin 0,
               rec_success = False, rec_error = Some m, rec_attempts = Suc (n + i) \<rparr>
           \<and> (Suc i < length new \<longleftrightarrow> escalation (new ! i) \<noteq> None \<and> Suc (n + i) < 3)
           \<and> (Suc i < length new \<longrightarrow> escalation (new ! i) = Some (new ! Suc i))
           \<and> (Suc i = length new \<longrightarrow>
                out = Inl (Error (''All models failed. Last error: '' @ m))))
      \<and> (\<forall>content usage. exec (TName (new ! i)) prompt (Suc (n + i)) = Response content usage \<longrightarrow>
             Suc i = length new
             \<and> rec_success (recs ! i) \<and> rec_id (recs ! i) = Suc (base + i)
             \<and> rec_tier (recs ! i) = TName (new ! i)
             \<and> rec_inputTokens (recs ! i) = u_input usage
             \<and> rec_outputTokens (recs ! i) = u_output usage
             \<and> (\<exists>res. out = Inr res \<and> res_tier res = TName (new ! i)
                    \<and> res_attempts res = Suc (n + i) \<and> res_response res = content)))"

section \<open>The classifier\<close>

lemma determineTier_first_match: "determineTier m = first_match tier_rules m"
  by (simp add: determineTier_def first_match_def tier_rules_def)

lemma determineTier_known:
  "determineTier m = ''SIMPLE'' \<or> determineTier m = ''MEDIUM'' \<or> determineTier m = ''COMPLEX''"
  by (simp add: determineTier_def)

lemma calculateComplexity_le: "calculateComplexity prompt \<le> 100"
  by (simp add: calculateComplexity_def Let_def)

lemma assessReasoning_le: "assessReasoning prompt \<le> 10"
  by (simp add: assessReasoning_def Let_def)

text \<open>
  C3. For every text, the tier that \<open>analyze\<close> returns is the one the precedence list
  of the specification gives on the metrics of the text: score at least 60, code with
  reasoning at least 5, more than 500 tokens (all \<open>COMPLEX\<close>), score at least 30, code,
  reasoning at least 3, more than 200 tokens (all \<open>MEDIUM\<close>), else \<open>SIMPLE\<close>; the first
  rule that holds wins.
\<close>

theorem analyze_tier_precedence:
  "tier (analyze text) = first_match tier_rules (calculateMetrics text)"
  by (simp add: analyze_def Let_def determineTier_first_match)

text \<open>
  C7. \<open>analyze\<close> is a total function of the text alone: it has no failing branch and no
  state. On every text it returns one of the three tiers, a score of at most 100 and a
  reasoning level of at most 10; on the empty text it returns \<open>SIMPLE\<close> with every
  metric 0.
\<close>

theorem analyze_total_and_empty:
  "(tier (analyze text) = ''SIMPLE'' \<or> tier (analyze text) = ''MEDIUM''
      \<or> tier (analyze text) = ''COMPLEX'')
   \<and> complexityScore (metrics (analyze text)) \<le> 100
   \<and> reasoningLevel (metrics (analyze text)) \<le> 10
   \<and> analyze [] =
       \<lparr> tier = ''SIMPLE'',
         metrics = \<lparr> tokens = 0, hasCode = False, reasoningLevel = 0, complexityScore = 0,
                     text_length = 0, sentences = 0, questions = 0 \<rparr>,
         confidence = 92 / 100,
         reasoning = ''Simple query with basic requirements'' \<rparr>"
proof -
  have t: "tier (analyze text) = determineTier (calculateMetrics text)"
    by (simp add: analyze_def Let_def)
  have c: "complexityScore (metrics (analyze text)) = calculateComplexity text"
    by (simp add: analyze_def Let_def calculateMetrics_def)
  have r: "reasoningLevel (metrics (analyze text)) = assessReasoning text"
    by (simp add: analyze_def Let_def calculateMetrics_def)
  have e: "analyze [] =
       \<lparr> tier = ''SIMPLE'',
         metrics = \<lparr> tokens = 0, hasCode = False, reasoningLevel = 0, complexityScore = 0,
                     text_length = 0, sentences = 0, questions = 0 \<rparr>,
         confidence = 92 / 100,
         reasoning = ''Simple query with basic requirements'' \<rparr>"
    by code_simp
  show ?thesis
    using determineTier_known [of "calculateMetrics text"]
      calculateComplexity_le [of "text"] assessReasoning_le [of "text"]
    unfolding t c r e by simp
qed

section \<open>Appending to a text\<close>

lemma toLowerCase_append: "toLowerCase (s @ e) = toLowerCase s @ toLowerCase e"
  by (simp add: toLowerCase_def)

lemma str_includes_Nil: "str_includes s []"
  by (cases s) simp_all

lemma str_includes_append: "str_includes s k \<Longrightarrow> str_includes (s @ e) k"
proof (induction s)
  case Nil
  then show ?case by (simp add: str_includes_Nil)
next
  case (Cons c cs)
  show ?case
  proof (cases "prefix k (c # cs)")
    case True
    then have "prefix k ((c # cs) @ e)" by (rule prefix_prefix)
    then show ?thesis by simp
  next
    case False
    then show ?thesis using Cons by simp
  qed
qed

lemma str_includes_set: "str_includes s k \<Longrightarrow> set k \<subseteq> set s"
proof (induction s)
  case Nil
  then show ?case by simp
next
  case (Cons c cs)
  show ?case
  proof (cases "prefix k (c # cs)")
    case True
    then show ?thesis by (rule set_mono_prefix)
  next
    case False
    then show ?thesis using Cons by auto
  qed
qed

lemma filter_length_mono:
  "(\<And>x. P x \<Longrightarrow> Q x) \<Longrightarrow> length (filter P xs) \<le> length (filter Q xs)"
  by (induction xs) auto

lemma keywords_append:
  "length (filter (str_includes (toLowerCase s)) ks)
     \<le> length (filter (str_includes (toLowerCase (s @ e))) ks)"
  by (rule filter_length_mono) (simp add: toLowerCase_append str_includes_append)

lemma countQuestions_append: "countQuestions s \<le> countQuestions (s @ e)"
  by (simp add: countQuestions_def)

lemma test_braces_append: "test_braces s \<Longrightarrow> test_braces (s @ e)"
proof -
  assume a: "test_braces s"
  have "dropWhile (\<lambda>c. c \<noteq> CHR ''{'') s \<noteq> []"
  proof
    assume h: "dropWhile (\<lambda>c. c \<noteq> CHR ''{'') s = []"
    from a have "CHR ''}'' \<in> set (dropWhile (\<lambda>c. c \<noteq> CHR ''{'') s)"
      by (simp only: test_braces_def)
    then show False unfolding h by simp
  qed
  then obtain x where "x \<in> set s" "\<not> x \<noteq> CHR ''{''"
    by auto
  then have "dropWhile (\<lambda>c. c \<noteq> CHR ''{'') (s @ e) = dropWhile (\<lambda>c. c \<noteq> CHR ''{'') s @ e"
    by (rule dropWhile_append1)
  then show ?thesis using a by (simp add: test_braces_def)
qed

lemma word_here_append:
  assumes "word_here w s" and "e = [] \<or> \<not> is_word_char (hd e)"
  shows "word_here w (s @ e)"
proof -
  from assms(1) have p: "prefix w (toLowerCase s)"
    and d: "case drop (length w) s of [] \<Rightarrow> True | d # _ \<Rightarrow> \<not> is_word_char d"
    by (simp_all add: word_here_def)
  from p have len: "length w \<le> length s"
    by (auto simp add: prefix_def toLowerCase_def dest: arg_cong [where f = length])
  have p': "prefix w (toLowerCase (s @ e))"
    using p by (auto simp add: toLowerCase_append prefix_def)
  have "case drop (length w) (s @ e) of [] \<Rightarrow> True | d # _ \<Rightarrow> \<not> is_word_char d"
    using d len assms(2) by (cases "drop (length w) s"; cases e) auto
  then show ?thesis using p' by (simp add: word_here_def)
qed

lemma word_from_append:
  assumes "e = [] \<or> \<not> is_word_char (hd e)"
  shows "word_from p w s \<Longrightarrow> word_from p w (s @ e)"
proof (induction s arbitrary: p)
  case Nil
  then show ?case by simp
next
  case (Cons c cs)
  then show ?case
    using word_here_append [OF _ assms, of w "c # cs"] by auto
qed

lemma detectCode_append:
  assumes "e = [] \<or> \<not> is_word_char (hd e)" and "detectCode s"
  shows "detectCode (s @ e)"
  using assms(2) str_includes_append test_braces_append word_from_append [OF assms(1)]
  unfolding detectCode_def test_word_def by blast

lemma digits_dot_append:
  assumes "digits_dot s = Some n"
  shows "digits_dot (s @ e) = Some n"
proof -
  let ?ds = "takeWhile is_digit s"
  from assms have pos: "0 < length ?ds"
    and dot: "case drop (length ?ds) s of [] \<Rightarrow> False | d # _ \<Rightarrow> d = CHR ''.''"
    and n: "n = Suc (length ?ds)"
    by (auto simp add: digits_dot_def Let_def split: if_splits)
  from dot obtain r where r: "drop (length ?ds) s = CHR ''.'' # r"
    by (auto split: list.splits)
  have "dropWhile is_digit s = CHR ''.'' # r"
    using r by (simp add: dropWhile_eq_drop)
  then have "CHR ''.'' \<in> set s"
    by (metis list.set_intros(1) set_dropWhileD)
  moreover have "\<not> is_digit (CHR ''.'')" by (simp add: is_digit_def)
  ultimately have tw: "takeWhile is_digit (s @ e) = ?ds"
    by (rule takeWhile_append1)
  have "length ?ds \<le> length s" by (rule length_takeWhile_le)
  then have "drop (length ?ds) (s @ e) = CHR ''.'' # r @ e"
    using r by simp
  then show ?thesis using pos n by (simp add: digits_dot_def tw)
qed

lemma stepWords_no_digit:
  assumes "w \<in> set stepWords" and "prefix w s"
  shows "digits_dot s = None"
proof -
  from assms obtain c cs where "s = c # cs" "\<not> is_digit c"
    by (auto simp add: stepWords_def prefix_def is_digit_def)
  then show ?thesis by (simp add: digits_dot_def)
qed

lemma stepWords_incomparable:
  "w \<in> set stepWords \<Longrightarrow> v \<in> set stepWords \<Longrightarrow> prefix w v \<Longrightarrow> w = v"
  by (auto simp add: stepWords_def)

lemma find_word_append:
  assumes "find (\<lambda>w. prefix w s) stepWords = Some w"
  shows "find (\<lambda>w. prefix w (s @ e)) stepWords = Some w"
proof -
  from assms obtain i where i: "i < length stepWords" "prefix (stepWords ! i) s"
    "w = stepWords ! i" "\<forall>j<i. \<not> prefix (stepWords ! j) s"
    by (auto simp add: find_Some_iff)
  have "\<not> prefix (stepWords ! j) (s @ e)" if "j < i" for j
  proof
    assume pj: "prefix (stepWords ! j) (s @ e)"
    have pw: "prefix w (s @ e)" using i(2,3) by simp
    have mem: "stepWords ! j \<in> set stepWords" "w \<in> set stepWords"
      using that i(1,3) by simp_all
    from pj pw have "prefix (stepWords ! j) w \<or> prefix w (stepWords ! j)"
      by (rule prefix_same_cases)
    then have "stepWords ! j = w"
      using stepWords_incomparable mem by metis
    then show False using i(4) that i(2,3) by auto
  qed
  moreover have "prefix (stepWords ! i) (s @ e)" using i(2) by (rule prefix_prefix)
  ultimately show ?thesis using i(1,3) by (auto simp add: find_Some_iff)
qed

lemma step_match_append:
  assumes "step_match s = Some n"
  shows "step_match (s @ e) = Some n"
proof (cases "digits_dot s")
  case (Some m)
  then have "digits_dot (s @ e) = Some m" by (rule digits_dot_append)
  then show ?thesis using assms Some by (simp add: step_match_def)
next
  case None
  then obtain w where w: "find (\<lambda>w. prefix w s) stepWords = Some w" "n = length w"
    using assms by (auto simp add: step_match_def)
  then have mem: "w \<in> set stepWords" "prefix w s"
    by (auto simp add: find_Some_iff)
  have "digits_dot (s @ e) = None"
    using mem(1) prefix_prefix [OF mem(2)] by (rule stepWords_no_digit)
  then show ?thesis using find_word_append [OF w(1)] w(2) by (simp add: step_match_def)
qed

lemma count_from_digits:
  "\<forall>c \<in> set s. is_digit c \<Longrightarrow> count_from k s = 0"
proof (induction k s rule: count_from.induct)
  case (1 k)
  then show ?case by simp
next
  case (2 k c cs)
  then show ?case by simp
next
  case (3 c cs)
  have all: "takeWhile is_digit (c # cs) = c # cs"
    using "3.prems" by simp
  have dd: "digits_dot (c # cs) = None"
    by (simp only: digits_dot_def all Let_def) simp
  have "\<not> prefix w (c # cs)" if "w \<in> set stepWords" for w
    using that "3.prems" by (auto simp add: stepWords_def is_digit_def)
  then have "find (\<lambda>w. prefix w (c # cs)) stepWords = None"
    by (simp add: find_None_iff)
  then have "step_match (c # cs) = None" using dd by (simp add: step_match_def)
  then show ?case using 3 by simp
qed

lemma count_from_proper_prefix:
  "\<forall>w \<in> set stepWords. \<forall>p \<in> set (prefixes w). p \<noteq> w \<longrightarrow> count_from 0 p = 0"
  by (simp add: stepWords_def step_match_def digits_dot_def is_digit_def)

lemma digits_dot_nondigit:
  assumes "x \<in> set s" and "\<not> is_digit x"
  shows "digits_dot (s @ e) = digits_dot s"
proof -
  let ?ds = "takeWhile is_digit s"
  have tw: "takeWhile is_digit (s @ e) = ?ds"
    using assms by (rule takeWhile_append1)
  have "dropWhile is_digit s \<noteq> []"
    using assms by (auto simp add: dropWhile_eq_Nil_conv)
  then obtain d r where dr: "drop (length ?ds) s = d # r"
    by (cases "dropWhile is_digit s") (simp_all add: dropWhile_eq_drop)
  have "length ?ds \<le> length s" by (rule length_takeWhile_le)
  then have "drop (length ?ds) (s @ e) = d # r @ e" using dr by simp
  then show ?thesis by (simp add: digits_dot_def tw dr)
qed

lemma step_match_crossing:
  assumes none: "step_match s = None" and some: "step_match (s @ e) = Some n"
  shows "count_from 0 s = 0"
proof (cases "digits_dot (s @ e)")
  case (Some m)
  have "\<forall>c \<in> set s. is_digit c"
  proof (rule ccontr)
    assume "\<not> (\<forall>c \<in> set s. is_digit c)"
    then obtain x where "x \<in> set s" "\<not> is_digit x" by blast
    then have "digits_dot s = Some m" using Some by (simp add: digits_dot_nondigit)
    then show False using none by (simp add: step_match_def)
  qed
  then show ?thesis by (rule count_from_digits)
next
  case None
  then obtain w where w: "find (\<lambda>w. prefix w (s @ e)) stepWords = Some w"
    using some by (auto simp add: step_match_def)
  then have mem: "w \<in> set stepWords" and pw: "prefix w (s @ e)"
    by (auto simp add: find_Some_iff)
  have "find (\<lambda>w. prefix w s) stepWords = None"
    using none by (auto simp add: step_match_def split: option.splits)
  then have np: "\<not> prefix w s" using mem by (simp add: find_None_iff)
  from pw np obtain us where "w = s @ us"
    by (auto simp add: prefix_append)
  then have "s \<in> set (prefixes w)" "s \<noteq> w" using np by auto
  then show ?thesis using count_from_proper_prefix mem by blast
qed

lemma count_from_append: "count_from k s \<le> count_from k (s @ e)"
proof (induction k s rule: count_from.induct)
  case (1 k)
  then show ?case by simp
next
  case (2 k c cs)
  then show ?case by simp
next
  case (3 c cs)
  show ?case
  proof (cases "step_match (c # cs)")
    case (Some n)
    then have "step_match ((c # cs) @ e) = Some n" by (rule step_match_append)
    then show ?thesis using Some "3.IH"(2) [OF Some] by simp
  next
    case None
    show ?thesis
    proof (cases "step_match ((c # cs) @ e)")
      case (Some n)
      have "count_from 0 (c # cs) = 0" using None Some by (rule step_match_crossing)
      then show ?thesis by simp
    next
      case None2: None
      then show ?thesis using None "3.IH"(1) [OF None] by simp
    qed
  qed
qed

lemma countSteps_append: "countSteps s \<le> countSteps (s @ e)"
  by (simp add: countSteps_def toLowerCase_append count_from_append)

lemma assessReasoning_append: "assessReasoning s \<le> assessReasoning (s @ e)"
proof -
  have "length (filter (str_includes (toLowerCase s)) reasoningKeywords) + countSteps s
      \<le> length (filter (str_includes (toLowerCase (s @ e))) reasoningKeywords) + countSteps (s @ e)"
    using keywords_append [of s reasoningKeywords e] countSteps_append [of s e]
    by (rule add_mono)
  then show ?thesis by (simp add: assessReasoning_def Let_def del: filter_append)
qed

lemma calculateComplexity_parts:
  "calculateComplexity s =
     min 100 ((if length s > 500 then 20 else 0) + (if length s > 1000 then 20 else 0)
       + (if detectCode s then 25 else 0) + score_rest s)"
  by (simp add: calculateComplexity_def score_rest_def Let_def)

lemma score_rest_append: "score_rest s \<le> score_rest (s @ e)"
proof -
  have a: "assessReasoning s * 3 \<le> assessReasoning (s @ e) * 3"
    using assessReasoning_append [of s e] by simp
  have b: "5 * length (filter (str_includes (toLowerCase s)) complexKeywords)
      \<le> 5 * length (filter (str_includes (toLowerCase (s @ e))) complexKeywords)"
    using keywords_append [of s complexKeywords e] by simp
  have c: "(if countQuestions s > 1 then countQuestions s * 5 else 0)
      \<le> (if countQuestions (s @ e) > 1 then countQuestions (s @ e) * 5 else 0)"
    using countQuestions_append [of s e] by auto
  show ?thesis unfolding score_rest_def using a b c by linarith
qed

text \<open>
  C2. A text \<open>s\<close> and at least 1000 characters \<open>e\<close> appended to it: the score of \<open>s @ e\<close>
  is at least the score of \<open>s\<close> when \<open>s\<close> has at most 500 characters, or \<open>e\<close> does not
  begin with a word character, or \<open>s @ e\<close> is still detected as code whenever \<open>s\<close> is.
\<close>

theorem complexity_monotone_amended:
  assumes long: "1000 \<le> length e"
    and keep: "length s \<le> 500 \<or> \<not> is_word_char (hd e) \<or> (detectCode s \<longrightarrow> detectCode (s @ e))"
  shows "calculateComplexity s \<le> calculateComplexity (s @ e)"
proof -
  have ne: "e \<noteq> []" using long by auto
  have rest: "score_rest s \<le> score_rest (s @ e)" by (rule score_rest_append)
  have code: "length s \<le> 500 \<or> (detectCode s \<longrightarrow> detectCode (s @ e))"
    using keep detectCode_append [of e s] by blast
  have "(if length s > 500 then 20 else 0) + (if length s > 1000 then 20 else 0)
       + (if detectCode s then 25 else 0) + score_rest s
     \<le> (if length (s @ e) > 500 then 20 else 0) + (if length (s @ e) > 1000 then 20 else 0)
       + (if detectCode (s @ e) then 25 else (0::nat)) + score_rest (s @ e)"
  proof (cases "s = []")
    case True
    have "\<not> detectCode []" by code_simp
    then show ?thesis using rest True by simp
  next
    case False
    then have "length (s @ e) > 1000" using long by (cases s) auto
    then show ?thesis using rest code by auto
  qed
  then show ?thesis unfolding calculateComplexity_parts by (rule min.mono [OF order_refl])
qed

lemma word_from_set: "word_from p w s \<Longrightarrow> set w \<subseteq> set (toLowerCase s)"
proof (induction s arbitrary: p)
  case Nil
  then show ?case by simp
next
  case (Cons c cs)
  show ?case
  proof (cases "word_here w (c # cs)")
    case True
    then have "prefix w (toLowerCase (c # cs))" by (simp add: word_here_def)
    then show ?thesis by (rule set_mono_prefix)
  next
    case False
    then have "word_from (is_word_char c) w cs" using Cons.prems by simp
    then have "set w \<subseteq> set (toLowerCase cs)" by (rule Cons.IH)
    then show ?thesis by (auto simp add: toLowerCase_def)
  qed
qed

lemma word_from_skip:
  assumes "w \<noteq> []" and "lower_char c \<noteq> hd w"
  shows "word_from p w (replicate n c @ s) = word_from (if n = 0 then p else is_word_char c) w s"
proof (induction n arbitrary: p)
  case 0
  then show ?case by simp
next
  case (Suc n)
  have "\<not> word_here w (c # replicate n c @ s)"
    using assms by (cases w) (auto simp add: word_here_def toLowerCase_def)
  then show ?case using Suc by simp
qed

lemma count_from_absent:
  assumes "\<forall>c \<in> set s. \<not> is_digit c" and "\<forall>w \<in> set stepWords. \<not> set w \<subseteq> set s"
  shows "count_from k s = 0"
  using assms
proof (induction k s rule: count_from.induct)
  case (1 k)
  then show ?case by simp
next
  case (2 k c cs)
  then show ?case by auto
next
  case (3 c cs)
  have dd: "digits_dot (c # cs) = None" using "3.prems"(1) by (simp add: digits_dot_def)
  have "\<not> prefix w (c # cs)" if "w \<in> set stepWords" for w
    using that "3.prems"(2) set_mono_prefix by blast
  then have "find (\<lambda>w. prefix w (c # cs)) stepWords = None"
    by (simp add: find_None_iff)
  then have none: "step_match (c # cs) = None" using dd by (simp add: step_match_def)
  have "count_from 0 cs = 0"
    using "3.IH"(1) [OF none] "3.prems" by auto
  then show ?case using none by simp
qed

lemma keywords_absent:
  assumes "set s \<subseteq> S" and "\<forall>k \<in> set ks. \<exists>c \<in> set k. c \<notin> S"
  shows "filter (str_includes s) ks = []"
proof -
  have "\<not> str_includes s k" if "k \<in> set ks" for k
  proof
    assume "str_includes s k"
    then have "set k \<subseteq> S" using str_includes_set assms(1) by blast
    then show False using assms(2) that by blast
  qed
  then show ?thesis by (simp add: filter_empty_conv)
qed

lemma lower_trailing_let: "toLowerCase trailing_let = trailing_let"
  by (simp add: trailing_let_def toLowerCase_def lower_char_def)

lemma lower_letter_tail: "toLowerCase letter_tail = letter_tail"
  by (simp add: letter_tail_def toLowerCase_def lower_char_def)

lemma set_trailing_let: "set trailing_let \<subseteq> set '' letr''"
  by (auto simp add: trailing_let_def)

lemma set_letter_tail: "set letter_tail \<subseteq> set '' letr''"
  by (auto simp add: letter_tail_def)

lemma score_rest_absent:
  assumes low: "toLowerCase s = s" and chars: "set s \<subseteq> set '' letr''"
  shows "score_rest s = 0"
proof -
  have r: "filter (str_includes s) reasoningKeywords = []"
    by (rule keywords_absent [OF chars]) (simp add: reasoningKeywords_def)
  have c: "filter (str_includes s) complexKeywords = []"
    by (rule keywords_absent [OF chars]) (simp add: complexKeywords_def)
  have d: "\<forall>c \<in> set s. \<not> is_digit c"
    using chars by (auto simp add: is_digit_def)
  have "\<forall>w \<in> set stepWords. \<exists>c \<in> set w. c \<notin> set '' letr''"
    by (simp add: stepWords_def)
  then have w: "\<forall>w \<in> set stepWords. \<not> set w \<subseteq> set s"
    using chars by blast
  have st: "countSteps s = 0"
    using count_from_absent [OF d w] by (simp add: countSteps_def low)
  have q: "countQuestions s = 0"
    using chars by (auto simp add: countQuestions_def filter_empty_conv)
  show ?thesis by (simp add: score_rest_def assessReasoning_def low r c st q)
qed

lemma code_absent:
  assumes low: "toLowerCase s = s" and chars: "set s \<subseteq> set '' letr''"
  shows "detectCode s = test_word ''let'' s"
proof -
  have "filter (str_includes s) [''```'', ''=>''] = []"
    by (rule keywords_absent [OF chars]) simp
  then have a: "\<not> str_includes s ''```''" "\<not> str_includes s ''=>''"
    by (simp_all split: if_splits)
  have "CHR ''}'' \<notin> set s" using chars by auto
  then have b: "\<not> test_braces s"
    using set_dropWhileD [of "CHR ''}''" "\<lambda>c. c \<noteq> CHR ''{''" s] by (auto simp add: test_braces_def)
  have c: "\<not> test_word w s" if "w \<in> set codeWords" "w \<noteq> ''let''" for w
  proof
    assume "test_word w s"
    then have "set w \<subseteq> set (toLowerCase s)" unfolding test_word_def by (rule word_from_set)
    then have "set w \<subseteq> set '' letr''" using chars low by simp
    then show False using that by (auto simp add: codeWords_def)
  qed
  have "(\<exists>w \<in> set codeWords. test_word w s) = test_word ''let'' s"
    using c by (auto simp add: codeWords_def)
  then show ?thesis using a b by (simp add: detectCode_def)
qed

lemma word_from_replicate:
  assumes "w \<noteq> []" and "lower_char c \<noteq> hd w"
  shows "\<not> word_from p w (replicate n c)"
  using word_from_skip [OF assms, of p n "[]"] by simp

lemma trailing_let_code: "test_word ''let'' trailing_let"
  unfolding test_word_def trailing_let_def
  by (subst word_from_skip) (simp_all add: lower_char_def word_here_def toLowerCase_def is_word_char_def)

lemma letter_no_code: "\<not> test_word ''let'' (trailing_let @ letter_tail)"
proof -
  have "word_from False ''let'' (replicate 498 (CHR '' '') @ ''letter'' @ replicate 997 (CHR '' '') @ [])
      = False"
    by (subst word_from_skip)
      (simp_all add: lower_char_def word_here_def toLowerCase_def is_word_char_def
        word_from_replicate)
  then show ?thesis by (simp add: test_word_def trailing_let_def letter_tail_def)
qed

text \<open>
  Without the condition the score can drop: the 501 characters that end in the word
  \<open>let\<close> score 20 for their length and 25 for the code keyword; with \<open>ter\<close> and 997
  spaces appended the word is \<open>letter\<close>, the keyword is gone, and the 1501 characters
  score 40 for their length only.
\<close>

theorem complexity_not_monotone_counterexample:
  "1000 \<le> length letter_tail
   \<and> calculateComplexity trailing_let = 45
   \<and> calculateComplexity (trailing_let @ letter_tail) = 40"
proof -
  have l1: "length letter_tail = 1000" by (simp add: letter_tail_def)
  have l2: "length trailing_let = 501" by (simp add: trailing_let_def)
  have low: "toLowerCase (trailing_let @ letter_tail) = trailing_let @ letter_tail"
    by (simp add: toLowerCase_append lower_trailing_let lower_letter_tail)
  note s1 = set_trailing_let
  have s2: "set (trailing_let @ letter_tail) \<subseteq> set '' letr''"
    using set_trailing_let set_letter_tail by simp
  have r1: "score_rest trailing_let = 0"
    by (rule score_rest_absent [OF lower_trailing_let s1])
  have r2: "score_rest (trailing_let @ letter_tail) = 0"
    by (rule score_rest_absent [OF low s2])
  have c1: "detectCode trailing_let"
    using code_absent [OF lower_trailing_let s1] trailing_let_code by simp
  have c2: "\<not> detectCode (trailing_let @ letter_tail)"
    using code_absent [OF low s2] letter_no_code by simp
  show ?thesis
    by (simp add: calculateComplexity_parts l1 l2 r1 r2 c1 c2)
qed

theorem complexity_monotone_amended_witness:
  "calculateComplexity ''let'' \<le> calculateComplexity (''let'' @ replicate 1000 (CHR ''x''))
   \<and> calculateComplexity trailing_let
       \<le> calculateComplexity (trailing_let @ replicate 1000 (CHR '' ''))"
proof -
  have a: "1000 \<le> length (replicate 1000 (CHR ''x''))" by simp
  have b: "length ''let'' \<le> 500 \<or> \<not> is_word_char (hd (replicate 1000 (CHR ''x'')))
      \<or> (detectCode ''let'' \<longrightarrow> detectCode (''let'' @ replicate 1000 (CHR ''x'')))"
    by simp
  have c: "1000 \<le> length (replicate 1000 (CHR '' ''))" by simp
  have "hd (replicate 1000 (CHR '' '')) = CHR '' ''" by simp
  then have d: "length trailing_let \<le> 500 \<or> \<not> is_word_char (hd (replicate 1000 (CHR '' '')))
      \<or> (detectCode trailing_let \<longrightarrow> detectCode (trailing_let @ replicate 1000 (CHR '' '')))"
    by (simp add: is_word_char_def)
  show ?thesis
    using complexity_monotone_amended [OF a b] complexity_monotone_amended [OF c d] by simp
qed

section \<open>The usage ledger\<close>

lemma requests_logRequest:
  "requests (logRequest tr r) = requests tr @ [r \<lparr> rec_id := Suc (length (requests tr)) \<rparr>]"
  by (simp add: logRequest_def)

lemma ids_apply_op:
  assumes "map rec_id (requests tr) = [1 ..< Suc (length (requests tr))]"
  shows "map rec_id (requests (apply_op tr op)) = [1 ..< Suc (length (requests (apply_op tr op)))]"
  using assms by (cases op) (simp_all add: requests_logRequest clear_def)

lemma ids_foldl:
  "map rec_id (requests tr) = [1 ..< Suc (length (requests tr))] \<Longrightarrow>
   map rec_id (requests (foldl apply_op tr ops)) = [1 ..< Suc (length (requests (foldl apply_op tr ops)))]"
  by (induction ops arbitrary: tr) (simp_all add: ids_apply_op)

lemma ids_run_ops:
  "map rec_id (requests (run_ops ops)) = [1 ..< Suc (length (requests (run_ops ops)))]"
  unfolding run_ops_def by (rule ids_foldl) (simp add: CostTracker_new_def)

text \<open>
  C9. In every ledger state that \<open>logRequest\<close> and \<open>clear\<close> produce from a new tracker,
  the ids of the records are \<open>1, 2, ..., n\<close> in this order: the i-th record (counting
  from 1) has id i and the ids increase strictly. Logging a further request keeps every
  record that is there as it is and adds one record at the end, whose id is greater
  than the id of each record already present.
\<close>

theorem ledger_sequence_ids:
  "map rec_id (requests (run_ops ops)) = [1 ..< Suc (length (requests (run_ops ops)))]
   \<and> (\<forall>i < length (requests (run_ops ops)). rec_id (requests (run_ops ops) ! i) = i + 1)
   \<and> sorted_wrt (<) (map rec_id (requests (run_ops ops)))
   \<and> requests (logRequest (run_ops ops) r) =
        requests (run_ops ops) @ [r \<lparr> rec_id := length (requests (run_ops ops)) + 1 \<rparr>]
   \<and> (\<forall>x \<in> set (requests (run_ops ops)).
        rec_id x < rec_id (last (requests (logRequest (run_ops ops) r))))"
proof -
  let ?rs = "requests (run_ops ops)"
  have ids: "map rec_id ?rs = [1 ..< Suc (length ?rs)]"
    by (rule ids_run_ops)
  have nth: "\<forall>i < length ?rs. rec_id (?rs ! i) = i + 1"
  proof (intro allI impI)
    fix i assume i: "i < length ?rs"
    then have "rec_id (?rs ! i) = map rec_id ?rs ! i" by simp
    also have "\<dots> = [1 ..< Suc (length ?rs)] ! i" by (simp only: ids)
    also have "\<dots> = i + 1" using i by (simp del: upt_Suc)
    finally show "rec_id (?rs ! i) = i + 1" .
  qed
  have srt: "sorted_wrt (<) (map rec_id ?rs)"
    by (simp only: ids) (simp del: upt_Suc)
  have app: "requests (logRequest (run_ops ops) r) = ?rs @ [r \<lparr> rec_id := length ?rs + 1 \<rparr>]"
    by (simp add: requests_logRequest)
  have gt: "\<forall>x \<in> set ?rs. rec_id x < rec_id (last (requests (logRequest (run_ops ops) r)))"
  proof
    fix x assume "x \<in> set ?rs"
    then have "rec_id x \<in> set (map rec_id ?rs)" by simp
    then have "rec_id x \<in> set [1 ..< Suc (length ?rs)]" by (simp only: ids)
    then show "rec_id x < rec_id (last (requests (logRequest (run_ops ops) r)))"
      by (simp add: requests_logRequest del: upt_Suc)
  qed
  show ?thesis using ids nth srt app gt by blast
qed

theorem ledger_sequence_ids_witness:
  "map rec_id (requests (run_ops [Log failed_attempt, Clear, Log failed_attempt, Log free_success]))
      = [1, 2]
   \<and> rec_id (requests (run_ops [Log failed_attempt, Clear, Log failed_attempt, Log free_success]) ! 1) = 2
   \<and> rec_id (last (requests (logRequest
        (run_ops [Log failed_attempt, Clear, Log failed_attempt, Log free_success]) failed_attempt))) = 3"
  using ledger_sequence_ids [of "[Log failed_attempt, Clear, Log failed_attempt, Log free_success]" failed_attempt]
  by (simp add: run_ops_def CostTracker_new_def logRequest_def clear_def)

text \<open>
  C5. A ledger that holds one failed attempt and no successful one: \<open>calculateStats\<close>
  takes its early return and reports \<open>totalRequests = 0\<close> and no \<open>failedRequests\<close> field,
  although one record was logged and it is a failed one.
\<close>

theorem stats_without_success:
  "totalRequests (calculateStats (logRequest CostTracker_new failed_attempt)) = 0
   \<and> failedRequests (calculateStats (logRequest CostTracker_new failed_attempt)) = None
   \<and> length (requests (logRequest CostTracker_new failed_attempt)) = 1
   \<and> length (filter (\<lambda>r. \<not> rec_success r) (requests (logRequest CostTracker_new failed_attempt))) = 1"
  by (simp add: calculateStats_def logRequest_def CostTracker_new_def failed_attempt_def)

text \<open>
  With at least one successful record the counts are those of the whole ledger.
\<close>

lemma stats_counts_with_success:
  assumes "filter rec_success (requests tr) \<noteq> []"
  shows "totalRequests (calculateStats tr) = length (requests tr)"
    and "failedRequests (calculateStats tr) = Some (length (filter (\<lambda>r. \<not> rec_success r) (requests tr)))"
proof -
  have len: "length (requests tr) - length (filter rec_success (requests tr))
      = length (filter (\<lambda>r. \<not> rec_success r) (requests tr))"
    using sum_length_filter_compl [of rec_success "requests tr"] by simp
  show "totalRequests (calculateStats tr) = length (requests tr)"
    using assms by (simp add: calculateStats_def Let_def)
  show "failedRequests (calculateStats tr) = Some (length (filter (\<lambda>r. \<not> rec_success r) (requests tr)))"
    using assms len by (simp add: calculateStats_def Let_def)
qed

text \<open>
  C6. A ledger that holds one successful request of 1000000 input tokens and cost 0:
  the total cost is 0 and the baseline is 90, and \<open>savingsMultiplier\<close>, guarded by
  \<open>baselineCost > 0\<close> and not by the total cost, is the quotient \<open>90 / 0\<close>, that is
  \<open>Infinity\<close>, not 0.
\<close>

theorem multiplier_divides_by_zero_cost:
  "totalCost (calculateStats (logRequest CostTracker_new free_success)) = Fin 0
   \<and> baselineCost (calculateStats (logRequest CostTracker_new free_success)) = Fin 90
   \<and> savingsMultiplier (calculateStats (logRequest CostTracker_new free_success)) = Some PosInf"
  by (simp add: calculateStats_def logRequest_def CostTracker_new_def free_success_def
      sum_cost_def sum_input_def sum_output_def js_of_nat_def baseline_costPerMInput_def
      baseline_costPerMOutput_def Let_def)

text \<open>
  \<open>savingsPercent\<close> is guarded by its own denominator: it is \<open>savings / baseline * 100\<close>
  when the baseline is positive and 0 otherwise.
\<close>

lemma savingsPercent_guarded:
  "savingsPercent (calculateStats tr) =
     (if js_gt (baselineCost (calculateStats tr)) (Fin 0)
      then js_mul (js_div (savings (calculateStats tr)) (baselineCost (calculateStats tr))) (Fin 100)
      else Fin 0)"
  by (simp add: calculateStats_def Let_def)

text \<open>
  C8. \<open>getRecentRequests(0)\<close> is \<open>requests.slice(-0)\<close>, which is \<open>requests.slice(0)\<close>:
  every record of the ledger, not the last zero of them.
\<close>

theorem recent_zero_returns_all:
  "getRecentRequests tr (Some 0) = requests tr"
  by (simp add: getRecentRequests_def slice_from_def)

text \<open>For a positive \<open>n\<close> the result is the last \<open>n\<close> records, all of them when there are fewer.\<close>

lemma recent_positive:
  "0 < n \<Longrightarrow> getRecentRequests tr (Some (int n)) = drop (length (requests tr) - n) (requests tr)"
  by (auto simp add: getRecentRequests_def slice_from_def Let_def max_def nat_diff_distrib' intro!: arg_cong2[where f=drop])

section \<open>The dispatcher\<close>

lemma known_tiers_cases:
  "t \<in> set known_tiers \<longleftrightarrow> t = ''SIMPLE'' \<or> t = ''MEDIUM'' \<or> t = ''COMPLEX''"
  by (auto simp add: known_tiers_def)

lemma fallback_known:
  "t \<in> set known_tiers \<Longrightarrow>
   next_tier (js_get fallbackChain t) = map_option TName (escalation t)"
  by (auto simp add: known_tiers_cases js_get_def fallbackChain_def escalation_def)

lemma escalation_known:
  "escalation t = Some t' \<Longrightarrow> t \<in> set known_tiers \<and> t' \<in> set known_tiers"
  by (auto simp add: escalation_def known_tiers_def split: if_splits)

lemma chain_from_known:
  "t \<in> set known_tiers \<Longrightarrow>
   chain_from t = t # (case escalation t of None \<Rightarrow> [] | Some t' \<Rightarrow> chain_from t')"
  by (auto simp add: known_tiers_cases chain_from_def known_tiers_def escalation_def)

lemma distinct_chain_from: "distinct (chain_from t)"
  unfolding chain_from_def by (rule distinct_dropWhile) (simp add: known_tiers_def)

lemma try_attempt_failure:
  assumes "ms t = Some cfg" and "exec (TName t) prompt n = Failure message"
  shows "try_attempt ms exec prompt an (TName t) n tr = Inl message"
  using assms by (simp add: try_attempt_def js_get_def)

lemma try_attempt_success:
  assumes "ms t = Some cfg" and "exec (TName t) prompt n = Response content usage"
  shows "\<exists>result. try_attempt ms exec prompt an (TName t) n tr =
           Inr (result, logRequest tr
                  (success_record prompt (TName t) (Own cfg) usage (res_cost result) n))
         \<and> res_tier result = TName t \<and> res_attempts result = n"
  using assms by (simp add: try_attempt_def js_get_def calculateCost_def Let_def)

lemma loop_failure:
  assumes cfg: "ms t = Some cfg" and known: "t \<in> set known_tiers"
    and fail: "exec (TName t) prompt (Suc n) = Failure message"
  shows "route_loop ms exec prompt an (TName t) n lastError tr cs =
     (let tr' = logRequest tr
            \<lparr> rec_id = 0, rec_prompt = take 100 prompt @ ''...'', rec_tier = TName t,
              rec_model = Some (name cfg), rec_inputTokens = 0, rec_outputTokens = 0,
              rec_cost = Fin 0, rec_success = False, rec_error = Some message,
              rec_attempts = Suc n \<rparr>;
          failed = \<lparr> outcome = Inl (Error (''All models failed. Last error: '' @ message)),
                     tracker = tr', calls = cs @ [TName t] \<rparr>
      in case escalation t of
           None \<Rightarrow> failed
         | Some t' \<Rightarrow>
             if Suc n < 3
             then route_loop ms exec prompt an (TName t') (Suc n) (Some message) tr' (cs @ [TName t])
             else failed)"
proof -
  have ne: "t \<noteq> []" using known by (auto simp add: known_tiers_def)
  have get: "js_get ms t = Own cfg" using cfg by (simp add: js_get_def)
  have ta: "try_attempt ms exec prompt an (TName t) (Suc n) tr = Inl message"
    using cfg fail by (simp add: try_attempt_def js_get_def)
  show ?thesis
    by (subst route_loop.simps)
      (simp add: ne get ta fallback_known [OF known]
        failure_record_def all_failed_def show_opt_def Let_def split: option.split)
qed

lemma all_less_Suc_shift: "(\<forall>i < Suc k. P i) \<longleftrightarrow> P 0 \<and> (\<forall>i < k. P (Suc i))"
  by (auto simp add: less_Suc_eq_0_disj)

lemma attempt_ok_shift:
  "attempt_ok ms exec prompt n base (t # new') (r # recs') out (Suc i)
     = attempt_ok ms exec prompt (Suc n) (Suc base) new' recs' out i"
  by (simp add: attempt_ok_def)

lemma attempt_ok_last_failure:
  assumes "exec (TName t) prompt (Suc n) = Failure m"
    and "escalation t = None \<or> \<not> Suc n < 3"
  shows "attempt_ok ms exec prompt n base [t]
     [\<lparr> rec_id = Suc base, rec_prompt = take 100 prompt @ ''...'',
               rec_tier = TName t, rec_model = map_option name (ms t),
               rec_inputTokens = 0, rec_outputTokens = 0, rec_cost = Fin 0,
               rec_success = False, rec_error = Some m, rec_attempts = Suc n \<rparr>]
     (Inl (Error (''All models failed. Last error: '' @ m))) 0"
  using assms by (auto simp add: attempt_ok_def)

lemma attempt_ok_success:
  assumes "exec (TName t) prompt (Suc n) = Response content usage"
    and "rec_success r" "rec_id r = Suc base" "rec_tier r = TName t"
    and "rec_inputTokens r = u_input usage" "rec_outputTokens r = u_output usage"
    and "res_tier res = TName t" "res_attempts res = Suc n" "res_response res = content"
  shows "attempt_ok ms exec prompt n base [t] [r] (Inr res) 0"
  using assms by (simp add: attempt_ok_def)

lemma attempt_ok_fallback:
  assumes "exec (TName t) prompt (Suc n) = Failure m"
    and "escalation t = Some t'" and "Suc n < 3"
    and "new' \<noteq> []" "hd new' = t'"
  shows "attempt_ok ms exec prompt n base (t # new')
     (\<lparr> rec_id = Suc base, rec_prompt = take 100 prompt @ ''...'',
               rec_tier = TName t, rec_model = map_option name (ms t),
               rec_inputTokens = 0, rec_outputTokens = 0, rec_cost = Fin 0,
               rec_success = False, rec_error = Some m, rec_attempts = Suc n \<rparr> # recs') out 0"
  using assms by (cases new') (simp_all add: attempt_ok_def)

lemma loop_success_result:
  assumes cfg: "ms t = Some cfg" and known: "t \<in> set known_tiers"
    and ok: "exec (TName t) prompt (Suc n) = Response content usage"
  shows "\<exists>result. route_loop ms exec prompt an (TName t) n lastError tr cs =
     \<lparr> outcome = Inr result,
       tracker = logRequest tr
         (success_record prompt (TName t) (Own cfg) usage (res_cost result) (Suc n)),
       calls = cs @ [TName t] \<rparr>
     \<and> res_tier result = TName t \<and> res_attempts result = Suc n
     \<and> res_response result = content \<and> res_usage result = usage"
proof -
  have ne: "t \<noteq> []" using known by (auto simp add: known_tiers_def)
  have get: "js_get ms t = Own cfg" using cfg by (simp add: js_get_def)
  obtain result where r: "try_attempt ms exec prompt an (TName t) (Suc n) tr =
           Inr (result, logRequest tr
                  (success_record prompt (TName t) (Own cfg) usage (res_cost result) (Suc n)))"
    and p: "res_tier result = TName t" "res_attempts result = Suc n"
      "res_response result = content" "res_usage result = usage"
    using cfg ok by (simp add: try_attempt_def js_get_def calculateCost_def Let_def)
  have "route_loop ms exec prompt an (TName t) n lastError tr cs =
     \<lparr> outcome = Inr result,
       tracker = logRequest tr
         (success_record prompt (TName t) (Own cfg) usage (res_cost result) (Suc n)),
       calls = cs @ [TName t] \<rparr>"
    by (subst route_loop.simps) (simp add: ne get r Let_def)
  then show ?thesis using p by blast
qed

lemma loop_trace:
  assumes reg: "\<forall>t \<in> set known_tiers. ms t \<noteq> None" and known: "t \<in> set known_tiers"
  shows "\<exists>new recs. new \<noteq> [] \<and> hd new = t \<and> prefix new (chain_from t)
       \<and> calls (route_loop ms exec prompt an (TName t) n lastError tr cs) = cs @ map TName new
       \<and> requests (tracker (route_loop ms exec prompt an (TName t) n lastError tr cs))
           = requests tr @ recs
       \<and> length recs = length new
       \<and> (\<forall>i < length new. attempt_ok ms exec prompt n (length (requests tr)) new recs
             (outcome (route_loop ms exec prompt an (TName t) n lastError tr cs)) i)"
  using known
proof (induction "length (chain_from t)" arbitrary: t n lastError tr cs rule: less_induct)
  case less
  note known = \<open>t \<in> set known_tiers\<close>
  obtain cfg where cfg: "ms t = Some cfg" using reg known by auto
  have chain: "chain_from t = t # (case escalation t of None \<Rightarrow> [] | Some t' \<Rightarrow> chain_from t')"
    by (rule chain_from_known [OF known])
  let ?run = "route_loop ms exec prompt an (TName t) n lastError tr cs"
  let ?base = "length (requests tr)"
  have single: "\<exists>new recs. new \<noteq> [] \<and> hd new = t \<and> prefix new (chain_from t)
       \<and> calls ?run = cs @ map TName new \<and> requests (tracker ?run) = requests tr @ recs
       \<and> length recs = length new
       \<and> (\<forall>i < length new. attempt_ok ms exec prompt n ?base new recs (outcome ?run) i)"
    if "calls ?run = cs @ [TName t]" and "requests (tracker ?run) = requests tr @ [r]"
      and "attempt_ok ms exec prompt n ?base [t] [r] (outcome ?run) 0" for r
  proof (intro exI conjI)
    show "[t] \<noteq> []" by simp
    show "hd [t] = t" by simp
    show "prefix [t] (chain_from t)" by (subst chain) simp
    show "calls ?run = cs @ map TName [t]" using that by simp
    show "requests (tracker ?run) = requests tr @ [r]" using that by simp
    show "length [r] = length [t]" by simp
    show "\<forall>i < length [t]. attempt_ok ms exec prompt n ?base [t] [r] (outcome ?run) i"
      using that by simp
  qed
  show ?case
  proof (cases "exec (TName t) prompt (Suc n)")
    case (Response content usage)
    obtain result where eq: "?run =
       \<lparr> outcome = Inr result,
         tracker = logRequest tr
           (success_record prompt (TName t) (Own cfg) usage (res_cost result) (Suc n)),
         calls = cs @ [TName t] \<rparr>"
      and p: "res_tier result = TName t" "res_attempts result = Suc n"
        "res_response result = content"
      using loop_success_result [where ms = ms and t = t and exec = exec and prompt = prompt
          and n = n and an = an and lastError = lastError and tr = tr and cs = cs,
          OF cfg known Response]
      by blast
    let ?r = "(success_record prompt (TName t) (Own cfg) usage (res_cost result) (Suc n))
        \<lparr> rec_id := Suc ?base \<rparr>"
    have out: "outcome ?run = Inr result" by (simp add: eq)
    have ok: "attempt_ok ms exec prompt n ?base [t] [?r] (outcome ?run) 0"
      unfolding out
      by (rule attempt_ok_success [where exec = exec and t = t and prompt = prompt and n = n,
            OF Response])
        (simp_all add: success_record_def p)
    show ?thesis
      by (rule single [where r = ?r]) (simp add: eq, simp add: eq requests_logRequest, rule ok)
  next
    case (Failure message)
    let ?rec = "\<lparr> rec_id = 0, rec_prompt = take 100 prompt @ ''...'', rec_tier = TName t,
              rec_model = Some (name cfg), rec_inputTokens = 0, rec_outputTokens = 0,
              rec_cost = Fin 0, rec_success = False, rec_error = Some message,
              rec_attempts = Suc n \<rparr>"
    let ?r = "\<lparr> rec_id = Suc ?base, rec_prompt = take 100 prompt @ ''...'',
               rec_tier = TName t, rec_model = map_option name (ms t),
               rec_inputTokens = 0, rec_outputTokens = 0, rec_cost = Fin 0,
               rec_success = False, rec_error = Some message, rec_attempts = Suc n \<rparr>"
    have logged: "requests (logRequest tr ?rec) = requests tr @ [?r]"
      by (simp add: requests_logRequest cfg)
    note eq = loop_failure [where ms = ms and t = t and exec = exec and prompt = prompt
        and n = n and an = an and lastError = lastError and tr = tr and cs = cs,
        OF cfg known Failure]
    have terminal: ?thesis
      if stop: "escalation t = None \<or> \<not> Suc n < 3"
    proof -
      have run: "?run =
            \<lparr> outcome = Inl (Error (''All models failed. Last error: '' @ message)),
              tracker = logRequest tr ?rec, calls = cs @ [TName t] \<rparr>"
        using stop by (auto simp add: eq Let_def split: option.split)
      have out: "outcome ?run = Inl (Error (''All models failed. Last error: '' @ message))"
        by (simp add: run)
      have ok: "attempt_ok ms exec prompt n ?base [t] [?r] (outcome ?run) 0"
        unfolding out
        by (rule attempt_ok_last_failure [where exec = exec and t = t and prompt = prompt
              and n = n, OF Failure stop])
      show ?thesis
        by (rule single [where r = ?r]) (simp add: run, simp add: run logged, rule ok)
    qed
    show ?thesis
    proof (cases "escalation t")
      case None
      then show ?thesis by (intro terminal disjI1)
    next
      case (Some t')
      show ?thesis
      proof (cases "Suc n < 3")
        case False
        then show ?thesis by (intro terminal disjI2)
      next
        case True
        have known': "t' \<in> set known_tiers" using escalation_known [OF Some] by simp
        have shorter: "length (chain_from t') < length (chain_from t)"
          using arg_cong [OF chain, of length] by (simp add: Some)
        have run: "?run = route_loop ms exec prompt an (TName t') (Suc n) (Some message)
                     (logRequest tr ?rec) (cs @ [TName t])"
          using True by (simp add: eq Some Let_def)
        obtain new recs where n: "new \<noteq> []" "hd new = t'" "prefix new (chain_from t')"
          "calls ?run = (cs @ [TName t]) @ map TName new"
          "requests (tracker ?run) = requests (logRequest tr ?rec) @ recs"
          "length recs = length new"
          "\<forall>i < length new. attempt_ok ms exec prompt (Suc n)
               (length (requests (logRequest tr ?rec))) new recs (outcome ?run) i"
          using less.hyps [OF shorter known', of "Suc n" "Some message" "logRequest tr ?rec" "cs @ [TName t]"]
          unfolding run by blast
        have len: "length (requests (logRequest tr ?rec)) = Suc ?base"
          by (simp add: requests_logRequest)
        have zero: "attempt_ok ms exec prompt n ?base (t # new) (?r # recs) (outcome ?run) 0"
          by (rule attempt_ok_fallback [where exec = exec and t = t and prompt = prompt and n = n,
                OF Failure Some True n(1) n(2)])
        show ?thesis
        proof (intro exI conjI)
          show "t # new \<noteq> []" by simp
          show "hd (t # new) = t" by simp
          show "prefix (t # new) (chain_from t)"
            by (subst chain) (simp add: Some n(3))
          show "calls ?run = cs @ map TName (t # new)" using n(4) by simp
          show "requests (tracker ?run) = requests tr @ (?r # recs)"
            using n(5) by (simp add: logged)
          show "length (?r # recs) = length (t # new)" using n(6) by simp
          show "\<forall>i < length (t # new). attempt_ok ms exec prompt n ?base (t # new) (?r # recs)
              (outcome ?run) i"
            unfolding length_Cons all_less_Suc_shift attempt_ok_shift
            using zero n(7) by (simp add: len)
        qed
      qed
    qed
  qed
qed

lemma route_start:
  "route ms exec tr prompt forceTier =
     route_loop ms exec prompt (analyze prompt)
       (TName (case forceTier of None \<Rightarrow> tier (analyze prompt)
               | Some f \<Rightarrow> if f \<noteq> [] then f else tier (analyze prompt)))
       0 None tr []"
  by (simp add: route_def Let_def)

lemma analyze_tier_known: "tier (analyze prompt) \<in> set known_tiers"
  by (simp add: analyze_def Let_def determineTier_def known_tiers_def)

text \<open>
  C1. The tier table holds the three tiers and the call forces none or one of them.
  The tiers that \<open>route\<close> attempts are \<open>new\<close>, attempt \<open>i + 1\<close> being made at \<open>new ! i\<close>,
  and the records that it appends to the ledger are \<open>recs\<close>, one per attempt in the
  order of the attempts. The first attempt is at the starting tier. Whenever attempt
  \<open>i + 1\<close> fails with a message, its record is the failure record (cost 0, no tokens,
  the message kept, the next id of the ledger); a further attempt follows exactly when
  the tier has a next tier in the order \<open>SIMPLE\<close>, \<open>MEDIUM\<close>, \<open>COMPLEX\<close> and fewer than
  3 attempts were made, and it is made at that next tier; when none follows, \<open>route\<close>
  throws \<open>All models failed\<close> with this last message. An attempt that succeeds is the
  last one. The tiers attempted are an initial part of the order from the starting
  tier, so none is attempted twice.
\<close>

theorem route_failure_handling:
  assumes reg: "\<forall>t \<in> set known_tiers. ms t \<noteq> None"
    and force: "forceTier = None \<or> forceTier \<in> Some ` set known_tiers"
  shows
    "\<exists>new recs.
        new \<noteq> []
      \<and> hd new = (case forceTier of None \<Rightarrow> tier (analyze prompt) | Some f \<Rightarrow> f)
      \<and> distinct new
      \<and> prefix new (chain_from (case forceTier of None \<Rightarrow> tier (analyze prompt) | Some f \<Rightarrow> f))
      \<and> calls (route ms exec tr prompt forceTier) = map TName new
      \<and> requests (tracker (route ms exec tr prompt forceTier)) = requests tr @ recs
      \<and> length recs = length new
      \<and> (\<forall>i < length new.
           (\<forall>m. exec (TName (new ! i)) prompt (Suc i) = Failure m \<longrightarrow>
              recs ! i =
                \<lparr> rec_id = Suc (length (requests tr) + i),
                  rec_prompt = take 100 prompt @ ''...'',
                  rec_tier = TName (new ! i), rec_model = map_option name (ms (new ! i)),
                  rec_inputTokens = 0, rec_outputTokens = 0, rec_cost = Fin 0,
                  rec_success = False, rec_error = Some m, rec_attempts = Suc i \<rparr>
              \<and> (Suc i < length new \<longleftrightarrow> escalation (new ! i) \<noteq> None \<and> Suc i < 3)
              \<and> (Suc i < length new \<longrightarrow> escalation (new ! i) = Some (new ! Suc i))
              \<and> (Suc i = length new \<longrightarrow>
                   outcome (route ms exec tr prompt forceTier) =
                     Inl (Error (''All models failed. Last error: '' @ m))))
         \<and> (\<forall>content usage.
              exec (TName (new ! i)) prompt (Suc i) = Response content usage \<longrightarrow>
                Suc i = length new
                \<and> rec_success (recs ! i)
                \<and> rec_id (recs ! i) = Suc (length (requests tr) + i)
                \<and> rec_tier (recs ! i) = TName (new ! i)
                \<and> rec_inputTokens (recs ! i) = u_input usage
                \<and> rec_outputTokens (recs ! i) = u_output usage
                \<and> (\<exists>res. outcome (route ms exec tr prompt forceTier) = Inr res
                       \<and> res_tier res = TName (new ! i) \<and> res_attempts res = Suc i
                       \<and> res_response res = content)))"
proof -
  let ?start = "case forceTier of None \<Rightarrow> tier (analyze prompt) | Some f \<Rightarrow> f"
  let ?run = "route ms exec tr prompt forceTier"
  have known: "?start \<in> set known_tiers"
    using force analyze_tier_known [of prompt] by (auto split: option.split)
  have ne: "?start \<noteq> []" using known by (auto simp add: known_tiers_def)
  have run: "?run = route_loop ms exec prompt (analyze prompt) (TName ?start) 0 None tr []"
  proof (cases forceTier)
    case None
    then show ?thesis by (simp add: route_start)
  next
    case (Some f)
    then have "f \<noteq> []" using ne by simp
    then show ?thesis using Some by (simp add: route_start)
  qed
  obtain new recs where n: "new \<noteq> []" "hd new = ?start" "prefix new (chain_from ?start)"
      "calls ?run = map TName new" "requests (tracker ?run) = requests tr @ recs"
      "length recs = length new"
      "\<forall>i < length new. attempt_ok ms exec prompt 0 (length (requests tr)) new recs (outcome ?run) i"
    using loop_trace [OF reg known, of exec prompt "analyze prompt" 0 None tr "[]"]
    unfolding run by auto
  have dist: "distinct new"
    using n(3) distinct_chain_from [of ?start] by (auto simp add: prefix_def)
  show ?thesis
    using n dist unfolding attempt_ok_def add_0 by blast
qed

lemma default_models_known: "\<forall>t \<in> set known_tiers. default_models t \<noteq> None"
  by (simp add: known_tiers_def default_models_def)

theorem route_failure_handling_witness:
  "flaky_backend (TName ''MEDIUM'') ''hi'' 1 = Failure ''Claude 3.5 Haiku temporarily unavailable''
   \<and> calls (route default_models flaky_backend CostTracker_new ''hi'' (Some ''MEDIUM''))
       = [TName ''MEDIUM'', TName ''COMPLEX'']
   \<and> requests (tracker (route default_models flaky_backend CostTracker_new ''hi'' (Some ''MEDIUM''))) ! 0
       = \<lparr> rec_id = 1, rec_prompt = ''hi...'', rec_tier = TName ''MEDIUM'',
           rec_model = Some ''anthropic/claude-3-5-haiku-20241022'',
           rec_inputTokens = 0, rec_outputTokens = 0, rec_cost = Fin 0,
           rec_success = False,
           rec_error = Some ''Claude 3.5 Haiku temporarily unavailable'',
           rec_attempts = 1 \<rparr>
   \<and> failing_backend (TName ''COMPLEX'') ''hi'' 1 = Failure ''Claude Opus 4.6 temporarily unavailable''
   \<and> outcome (route default_models failing_backend CostTracker_new ''hi'' (Some ''COMPLEX''))
       = Inl (Error ''All models failed. Last error: Claude Opus 4.6 temporarily unavailable'')"
proof -
  let ?run = "route default_models flaky_backend CostTracker_new ''hi'' (Some ''MEDIUM'')"
  have force: "Some ''MEDIUM'' = None \<or> Some ''MEDIUM'' \<in> Some ` set known_tiers"
    by (simp add: known_tiers_def)
  have f: "flaky_backend (TName ''MEDIUM'') ''hi'' 1 =
      Failure ''Claude 3.5 Haiku temporarily unavailable''"
    by code_simp
  have c: "calls ?run = [TName ''MEDIUM'', TName ''COMPLEX'']"
    by code_simp
  have m: "map_option name (default_models ''MEDIUM'') = Some ''anthropic/claude-3-5-haiku-20241022''"
    by (simp add: default_models_def)
  obtain new recs where n: "calls ?run = map TName new"
    "requests (tracker ?run) = requests CostTracker_new @ recs"
    "\<forall>i < length new.
       (\<forall>m. flaky_backend (TName (new ! i)) ''hi'' (Suc i) = Failure m \<longrightarrow>
          recs ! i =
            \<lparr> rec_id = Suc (length (requests CostTracker_new) + i),
              rec_prompt = take 100 ''hi'' @ ''...'',
              rec_tier = TName (new ! i), rec_model = map_option name (default_models (new ! i)),
              rec_inputTokens = 0, rec_outputTokens = 0, rec_cost = Fin 0,
              rec_success = False, rec_error = Some m, rec_attempts = Suc i \<rparr>)"
    using route_failure_handling [OF default_models_known force,
        where exec = flaky_backend and tr = CostTracker_new and prompt = "''hi''"]
    by blast
  have new: "new = [''MEDIUM'', ''COMPLEX'']"
    using n(1) c by (auto simp add: map_eq_Cons_conv)
  have r0: "requests (tracker ?run) ! 0 = recs ! 0"
    using n(2) by (simp add: CostTracker_new_def)
  have rec: "requests (tracker ?run) ! 0
       = \<lparr> rec_id = 1, rec_prompt = ''hi...'', rec_tier = TName ''MEDIUM'',
           rec_model = Some ''anthropic/claude-3-5-haiku-20241022'',
           rec_inputTokens = 0, rec_outputTokens = 0, rec_cost = Fin 0,
           rec_success = False,
           rec_error = Some ''Claude 3.5 Haiku temporarily unavailable'',
           rec_attempts = 1 \<rparr>"
  proof -
    have len: "length (requests CostTracker_new) = 0" by (simp add: CostTracker_new_def)
    have "recs ! 0 =
            \<lparr> rec_id = Suc (length (requests CostTracker_new) + 0),
              rec_prompt = take 100 ''hi'' @ ''...'',
              rec_tier = TName (new ! 0), rec_model = map_option name (default_models (new ! 0)),
              rec_inputTokens = 0, rec_outputTokens = 0, rec_cost = Fin 0,
              rec_success = False,
              rec_error = Some ''Claude 3.5 Haiku temporarily unavailable'',
              rec_attempts = Suc 0 \<rparr>"
      using n(3) [rule_format, of 0 "''Claude 3.5 Haiku temporarily unavailable''"] f
      by (simp add: new)
    then show ?thesis by (simp add: r0 new m len)
  qed
  let ?run2 = "route default_models failing_backend CostTracker_new ''hi'' (Some ''COMPLEX'')"
  have force2: "Some ''COMPLEX'' = None \<or> Some ''COMPLEX'' \<in> Some ` set known_tiers"
    by (simp add: known_tiers_def)
  have f2: "failing_backend (TName ''COMPLEX'') ''hi'' 1 =
      Failure ''Claude Opus 4.6 temporarily unavailable''"
    by code_simp
  obtain new2 where n2: "new2 \<noteq> []" "hd new2 = ''COMPLEX''" "prefix new2 (chain_from ''COMPLEX'')"
    "\<forall>i < length new2.
       (\<forall>m. failing_backend (TName (new2 ! i)) ''hi'' (Suc i) = Failure m \<longrightarrow>
          (Suc i = length new2 \<longrightarrow>
             outcome ?run2 = Inl (Error (''All models failed. Last error: '' @ m))))"
    using route_failure_handling [OF default_models_known force2,
        where exec = failing_backend and tr = CostTracker_new and prompt = "''hi''"]
    by auto
  have ch: "chain_from ''COMPLEX'' = [''COMPLEX'']"
    by (simp add: chain_from_def known_tiers_def)
  have "prefix new2 [''COMPLEX'']" using n2(3) by (simp only: ch)
  then have new2: "new2 = [''COMPLEX'']"
    using n2(1) unfolding prefix_Cons by auto
  have i0: "0 < length new2" and last: "Suc 0 = length new2" by (simp_all add: new2)
  have f2': "failing_backend (TName (new2 ! 0)) ''hi'' (Suc 0) =
      Failure ''Claude Opus 4.6 temporarily unavailable''"
    using f2 by (simp add: new2)
  have msg: "''All models failed. Last error: '' @ ''Claude Opus 4.6 temporarily unavailable''
      = ''All models failed. Last error: Claude Opus 4.6 temporarily unavailable''"
    by simp
  have out: "outcome ?run2
       = Inl (Error ''All models failed. Last error: Claude Opus 4.6 temporarily unavailable'')"
    using n2(4) [rule_format, OF i0 f2' last] by (simp only: msg)
  show ?thesis by (intro conjI f c rec f2 out)
qed

text \<open>
  C4. \<open>getModelInfo\<close> never fails: it is the plain property lookup. For a tier of the
  table it returns the configuration of the tier; for a name that is neither in the
  table nor a member of \<open>Object.prototype\<close> it returns \<open>undefined\<close>; for a name that
  is not in the table and is a member of \<open>Object.prototype\<close> it returns that member.
\<close>

theorem getModelInfo_plain_lookup:
  "(\<exists>v. getModelInfo ms t = Inr v)
   \<and> (ms t = Some cfg \<longrightarrow> getModelInfo ms t = Inr (Own cfg))
   \<and> (ms t = None \<and> t \<notin> set Object_prototype_keys \<longrightarrow> getModelInfo ms t = Inr Undefined)
   \<and> (ms t = None \<and> t \<in> set Object_prototype_keys \<longrightarrow> getModelInfo ms t = Inr (Inherited t))"
  by (simp add: getModelInfo_def js_get_def)

theorem getModelInfo_plain_lookup_witness:
  "getModelInfo default_models ''SIMPLE'' =
     Inr (Own \<lparr> name = ''minimax/minimax-01'', displayName = ''Minimax M2.5'',
          costPerMInput = Fin (127 / 100), costPerMOutput = Fin (127 / 100), maxRetries = 2 \<rparr>)
   \<and> getModelInfo default_models ''GOLD'' = Inr Undefined"
proof -
  have a: "default_models ''SIMPLE'' =
     Some \<lparr> name = ''minimax/minimax-01'', displayName = ''Minimax M2.5'',
          costPerMInput = Fin (127 / 100), costPerMOutput = Fin (127 / 100), maxRetries = 2 \<rparr>"
    by (simp add: default_models_def)
  have b: "default_models ''GOLD'' = None \<and> ''GOLD'' \<notin> set Object_prototype_keys"
    by (simp add: default_models_def Object_prototype_keys_def)
  show ?thesis
    using getModelInfo_plain_lookup [of default_models "''SIMPLE''" "the (default_models ''SIMPLE'')"]
      getModelInfo_plain_lookup [of default_models "''GOLD''"] a b
    by simp
qed

text \<open>
  For the unknown tier \<open>GOLD\<close> the router as constructed returns \<open>undefined\<close>; it raises
  no error.
\<close>

theorem getModelInfo_unknown_counterexample:
  "''GOLD'' \<notin> set known_tiers \<and> getModelInfo default_models ''GOLD'' = Inr Undefined"
  by (simp add: known_tiers_def getModelInfo_def js_get_def default_models_def
      Object_prototype_keys_def)

text \<open>
  C10. A forced tier that is a non-empty string and names no property of the tier
  table, own or inherited (for the router as constructed: a non-empty name outside the
  three tiers and the members of \<open>Object.prototype\<close>): \<open>route\<close> throws a \<open>TypeError\<close>, calls
  no backend, makes no fallback and leaves the tracker as it was. An empty forced tier
  is the same call as one that forces no tier.
\<close>

theorem route_unknown_forced_tier:
  assumes "f \<noteq> []" and "ms f = None" and "f \<notin> set Object_prototype_keys"
  shows "route ms exec tr prompt (Some f) =
     \<lparr> outcome = Inl (TypeError (cannot_read ''displayName'')), tracker = tr, calls = [] \<rparr>
   \<and> route ms exec tr prompt (Some []) = route ms exec tr prompt None"
proof -
  have empty: "route ms exec tr prompt (Some []) = route ms exec tr prompt None"
    by (simp add: route_start)
  have get: "js_get ms f = Undefined" using assms by (simp add: js_get_def)
  have ta: "try_attempt ms exec prompt (analyze prompt) (TName f) (Suc 0) tr
      = Inl (cannot_read ''displayName'')"
    by (simp add: try_attempt_def get)
  have "route ms exec tr prompt (Some f) =
      route_loop ms exec prompt (analyze prompt) (TName f) 0 None tr []"
    using assms(1) by (simp add: route_start)
  also have "\<dots> = \<lparr> outcome = Inl (TypeError (cannot_read ''displayName'')),
      tracker = tr, calls = [] \<rparr>"
    by (subst route_loop.simps) (simp add: assms(1) get ta)
  finally show ?thesis using empty by simp
qed

theorem route_unknown_forced_tier_witness:
  "route default_models steady_backend (logRequest CostTracker_new failed_attempt) ''hi'' (Some ''GOLD'') =
     \<lparr> outcome = Inl (TypeError (cannot_read ''displayName'')),
       tracker = logRequest CostTracker_new failed_attempt, calls = [] \<rparr>"
proof -
  have a: "''GOLD'' \<noteq> []" by simp
  have b: "default_models ''GOLD'' = None" by (simp add: default_models_def)
  have c: "''GOLD'' \<notin> set Object_prototype_keys" by (simp add: Object_prototype_keys_def)
  show ?thesis
    using route_unknown_forced_tier [where ms = default_models and f = "''GOLD''", OF a b c]
    by (rule conjunct1)
qed

text \<open>
  The empty string is outside the three tiers, and as a forced tier it is falsy:
  \<open>options.forceTier || analysis.tier\<close> is the tier of the classifier, the backend is
  called, the call succeeds and one record is logged.
\<close>

theorem route_empty_forced_tier_counterexample:
  "'''' \<notin> set known_tiers
   \<and> calls (route default_models steady_backend CostTracker_new ''hi'' (Some '''')) = [TName ''SIMPLE'']
   \<and> isl (outcome (route default_models steady_backend CostTracker_new ''hi'' (Some ''''))) = False
   \<and> length (requests (tracker (route default_models steady_backend CostTracker_new ''hi'' (Some ''''))))
       = 1"
proof -
  have a: "'''' \<notin> set known_tiers" by (simp add: known_tiers_def)
  have b: "calls (route default_models steady_backend CostTracker_new ''hi'' (Some '''')) = [TName ''SIMPLE'']"
    by code_simp
  have c: "isl (outcome (route default_models steady_backend CostTracker_new ''hi'' (Some ''''))) = False"
    by code_simp
  have d: "length (requests (tracker (route default_models steady_backend CostTracker_new ''hi'' (Some ''''))))
       = 1"
    by code_simp
  show ?thesis using a b c d by blast
qed

text \<open>A forced tier that the table only inherits does reach the backend.\<close>

lemma route_inherited_forced_tier:
  "calls (route default_models steady_backend CostTracker_new ''hi'' (Some ''constructor''))
     = [TName ''constructor'']"
  by code_simp

text \<open>
  The statistics after calls of \<open>route\<close>. A call whose three attempts fail logs three
  records, and \<open>calculateStats\<close> then reports no request at all; a successful call on a
  tier of cost 0 makes the multiplier \<open>Infinity\<close>.
\<close>

lemma stats_after_failed_route:
  "length (requests (tracker (route default_models failing_backend CostTracker_new ''hi'' None))) = 3
   \<and> totalRequests (calculateStats
         (tracker (route default_models failing_backend CostTracker_new ''hi'' None))) = 0
   \<and> failedRequests (calculateStats
         (tracker (route default_models failing_backend CostTracker_new ''hi'' None))) = None"
  by code_simp

lemma multiplier_after_free_route:
  "savingsMultiplier (calculateStats
       (tracker (route free_models (executeModel free_models None (\<lambda>n. 1 / 2))
          CostTracker_new ''hi'' None))) = Some PosInf"
  by code_simp

end
